theory Spec2Isabelle
  imports Main "HOL-Library.Multiset"
begin

section \<open>The pairing engine of \<^verbatim>\<open>src/services/shuffleService.js\<close>\<close>

text \<open>
  A shallow embedding of \<^verbatim>\<open>makePairs\<close>, \<^verbatim>\<open>shuffleAndPair\<close>,
  \<^verbatim>\<open>makeNewbieParticipants\<close>, \<^verbatim>\<open>isValidPair\<close> and \<^verbatim>\<open>validResult\<close>, and of
  \<^verbatim>\<open>SheetDataService.makeRandomPairs\<close>, its only caller.

  The JavaScript reads two things from its environment, and both are parameters here:
  \<^item> \<^verbatim>\<open>Math.floor(Math.random() * (i + 1))\<close> is an index between \<open>0\<close> and \<open>i\<close>. The
    oracle \<open>random :: nat \<Rightarrow> nat\<close> gives the outcome of the \<open>k\<close>-th call of
    \<^verbatim>\<open>Math.random\<close> made by one run, and the index drawn is \<open>random k mod (i + 1)\<close>:
    every oracle describes a run and every run is described by an oracle. A counter of
    the calls made so far is threaded through the functions that draw.
  \<^item> \<^verbatim>\<open>new Date().toISOString()\<close> is \<open>now d\<close>, the text read at the \<open>d\<close>-th look at
    the clock, with a counter threaded in the same way.

  An exception is a value \<open>Inl e\<close> of the sum type \<open>error + 'a\<close>. The messages of the
  source are Korean text; each one is a constructor of \<open>error\<close> that carries the values
  the message interpolates. \<^verbatim>\<open>console.log\<close> is left out.
\<close>

subsection \<open>Data\<close>

text \<open>
  The strings \<^verbatim>\<open>'normal'\<close>, \<^verbatim>\<open>'newbie'\<close> and
  \<^verbatim>\<open>'leader'\<close> of the field \<^verbatim>\<open>type\<close>.
\<close>

datatype ptype = normal | newbie | leader

text \<open>A participant object \<^verbatim>\<open>{name, type}\<close>.\<close>

record participant =
  name :: string
  type :: ptype

text \<open>The object pushed by \<^verbatim>\<open>shuffleAndPair\<close>, and the same object with the \<^verbatim>\<open>id\<close> that
  \<^verbatim>\<open>makePairs\<close> adds.\<close>

record pair =
  giver :: string
  giverType :: ptype
  receiver :: string
  receiverType :: ptype
  createdAt :: string

record finalPair = pair +
  id' :: nat

datatype error =
    OnlyOneParticipant           \<comment> \<open>\<^verbatim>\<open>makePairs\<close>, \<^verbatim>\<open>totalCount === 1\<close>\<close>
  | GroupOfOne nat               \<comment> \<open>\<^verbatim>\<open>shuffleAndPair\<close>, a group of length 1; carries the length\<close>
  | NoValidPairs nat             \<comment> \<open>\<^verbatim>\<open>shuffleAndPair\<close>, attempts used up; carries the length\<close>
  | MutualPair string string     \<comment> \<open>\<^verbatim>\<open>validResult\<close>; carries giver and receiver\<close>
  | TypeError                    \<comment> \<open>a property read on \<^verbatim>\<open>undefined\<close>\<close>
  | NoValidData                  \<comment> \<open>\<^verbatim>\<open>makeRandomPairs\<close>, a list is missing\<close>

text \<open>
  The four fixed texts of \<^verbatim>\<open>metadata.rules\<close>, in the order of the
  source.
\<close>

datatype rule =
    NewbieOnlyWithNewbieOrLeader
  | LeadersNotTogether
  | NormalWithAnyone
  | FilterPairsForbidden

record fullMetadata =
  totalParticipants :: nat
  usedParticipants :: nat
  excludedParticipants :: nat
  excluded :: "participant list"
  forbiddenPairs :: nat
  generatedAt :: string
  rules :: "rule list"

text \<open>
  \<^verbatim>\<open>metadata\<close> is either \<^verbatim>\<open>{error: '...'}\<close>
  (no participants) or the full object.
\<close>

datatype metadataObj = ErrorNoParticipants | Full fullMetadata

record pairingResult =
  pairs :: "finalPair list"
  metadata :: metadataObj

subsection \<open>\<^verbatim>\<open>isValidPair\<close>\<close>

text \<open>The template \<^verbatim>\<open>`${a}-${b}`\<close>.\<close>

definition pairKey :: "string \<Rightarrow> string \<Rightarrow> string" where
  "pairKey a b = a @ ''-'' @ b"

text \<open>
  The third argument is the \<^verbatim>\<open>Set\<close> of keys, or \<open>None\<close> for a missing one (the test
  \<^verbatim>\<open>forbiddenPairs &&\<close> of the source).
\<close>

definition isValidPair :: "participant \<Rightarrow> participant \<Rightarrow> string set option \<Rightarrow> bool" where
  "isValidPair g r fset =
     (if name g = name r then False
      else if (case fset of None \<Rightarrow> False | Some S \<Rightarrow> pairKey (name g) (name r) \<in> S) then False
      else if type g = newbie \<and> type r = normal then False
      else if type r = newbie \<and> type g = normal then False
      else if type g = newbie \<and> type r = newbie then False
      else True)"

subsection \<open>The Fisher-Yates loop\<close>

text \<open>
  \<^verbatim>\<open>for (let i = a.length - 1; i > 0; i--) { const j = Math.floor(Math.random() * (i + 1));
  [a[i], a[j]] = [a[j], a[i]]; }\<close>
  The second argument is the loop variable \<open>i\<close>, the third the number of draws made so
  far; the result is the array after the loop and the new number of draws.
\<close>

fun fisherYates :: "(nat \<Rightarrow> nat) \<Rightarrow> nat \<Rightarrow> nat \<Rightarrow> 'a list \<Rightarrow> 'a list \<times> nat" where
  "fisherYates random 0 k a = (a, k)"
| "fisherYates random (Suc i') k a =
     (let i = Suc i';
          j = random k mod (i + 1)
      in fisherYates random i' (Suc k) (a[i := a ! j, j := a ! i]))"

subsection \<open>\<^verbatim>\<open>shuffleAndPair\<close>\<close>

text \<open>
  The inner loop over the shuffled array: the pair of index \<open>i\<close> gives to index
  \<open>(i + 1) % length\<close>. The first pair that \<^verbatim>\<open>isValidPair\<close> rejects ends the loop
  (\<^verbatim>\<open>success = false; break\<close>), which is the result \<open>None\<close>; each pair pushed reads the
  clock once.
\<close>

function cycleLoop ::
  "(nat \<Rightarrow> string) \<Rightarrow> string set option \<Rightarrow> participant list \<Rightarrow> nat \<Rightarrow> nat \<Rightarrow> pair list
     \<Rightarrow> pair list option \<times> nat" where
  "cycleLoop now fset shuffled i d ps =
     (if i < length shuffled then
        (let g = shuffled ! i;
             receiverIndex = (i + 1) mod length shuffled;
             r = shuffled ! receiverIndex
         in if \<not> isValidPair g r fset then (None, d)
            else cycleLoop now fset shuffled (i + 1) (Suc d)
                   (ps @ [\<lparr>giver = name g, giverType = type g,
                           receiver = name r, receiverType = type r,
                           createdAt = now d\<rparr>]))
      else (Some ps, d))"
  by pat_completeness auto
termination
  by (relation "measure (\<lambda>(now, fset, shuffled, i, d, ps). length shuffled - i)") auto

declare cycleLoop.simps [simp del]

definition maxAttempts :: nat where
  "maxAttempts = 100"

text \<open>
  The loop \<^verbatim>\<open>for (let attempt = 0; attempt < maxAttempts; attempt++)\<close>: each attempt
  shuffles a fresh copy of \<^verbatim>\<open>participants\<close>; falling out of the loop is the final
  \<^verbatim>\<open>throw\<close>.
\<close>

function attemptLoop ::
  "(nat \<Rightarrow> nat) \<Rightarrow> (nat \<Rightarrow> string) \<Rightarrow> string set option \<Rightarrow> participant list \<Rightarrow> nat \<Rightarrow> nat \<Rightarrow> nat
     \<Rightarrow> error + (pair list \<times> nat \<times> nat)" where
  "attemptLoop random now fset participants attempt k d =
     (if attempt < maxAttempts then
        (let sh = fisherYates random (length participants - 1) k participants;
             cy = cycleLoop now fset (fst sh) 0 d []
         in case fst cy of
              Some ps \<Rightarrow> Inr (ps, snd sh, snd cy)
            | None \<Rightarrow> attemptLoop random now fset participants (attempt + 1) (snd sh) (snd cy))
      else Inl (NoValidPairs (length participants)))"
  by pat_completeness auto
termination
  by (relation "measure (\<lambda>(random, now, fset, participants, attempt, k, d). maxAttempts - attempt)")
     auto

declare attemptLoop.simps [simp del]

definition shuffleAndPair ::
  "(nat \<Rightarrow> nat) \<Rightarrow> (nat \<Rightarrow> string) \<Rightarrow> participant list \<Rightarrow> string set option \<Rightarrow> nat \<Rightarrow> nat
     \<Rightarrow> error + (pair list \<times> nat \<times> nat)" where
  "shuffleAndPair random now participants fset k d =
     (if length participants = 0 then Inr ([], k, d)
      else if length participants = 1 then Inl (GroupOfOne (length participants))
      else attemptLoop random now fset participants 0 k d)"

subsection \<open>\<^verbatim>\<open>makeNewbieParticipants\<close>\<close>

text \<open>
  The function returns the empty array \<^verbatim>\<open>[]\<close> when there is no newbie, and an object
  with the two fields otherwise.
\<close>

datatype newbieParticipantsData =
    EmptyArray
  | Groups (newbieAndLeaders: "participant list") (remainLeaders: "string list")

definition asType :: "ptype \<Rightarrow> string \<Rightarrow> participant" where
  "asType t n = \<lparr>name = n, type = t\<rparr>"

definition makeNewbieParticipants ::
  "(nat \<Rightarrow> nat) \<Rightarrow> string list \<Rightarrow> string list \<Rightarrow> nat \<Rightarrow> newbieParticipantsData \<times> nat" where
  "makeNewbieParticipants random newbies leaders k =
     (if length newbies = 0 then (EmptyArray, k)
      else if length leaders \<le> length newbies then
        (Groups (map (asType newbie) newbies @ map (asType leader) leaders) [], k)
      else
        (let sh = fisherYates random (length leaders - 1) k leaders;
             shuffledLeaders = fst sh;
             selectedLeaders = take (length newbies) shuffledLeaders
         in (Groups (map (asType newbie) newbies @ map (asType leader) selectedLeaders)
               (drop (length newbies) shuffledLeaders),
             snd sh)))"

subsection \<open>\<^verbatim>\<open>validResult\<close>\<close>

text \<open>
  The loop over \<^verbatim>\<open>finalPairs\<close>, with the set \<^verbatim>\<open>pairSet\<close> as the source has it: created
  empty, read by \<^verbatim>\<open>pairSet.has(reverseKey)\<close>, and passed on to the next round as it is,
  since the body of the loop has no \<^verbatim>\<open>pairSet.add\<close>.
\<close>

fun validResultLoop :: "string set \<Rightarrow> finalPair list \<Rightarrow> error + unit" where
  "validResultLoop pairSet [] = Inr ()"
| "validResultLoop pairSet (p # rest) =
     (let forwardKey = pairKey (giver p) (receiver p);
          reverseKey = pairKey (receiver p) (giver p)
      in if reverseKey \<in> pairSet then Inl (MutualPair (giver p) (receiver p))
         else validResultLoop pairSet rest)"

definition validResult :: "finalPair list \<Rightarrow> error + unit" where
  "validResult finalPairs = validResultLoop {} finalPairs"

subsection \<open>\<^verbatim>\<open>makePairs\<close>\<close>

text \<open>
  \<^verbatim>\<open>filterPairs.forEach(([a, b]) => { if (a && b) { add a-b; add b-a } })\<close>: a string is
  truthy when it is not empty.
\<close>

definition addForbidden :: "string set \<Rightarrow> string \<times> string \<Rightarrow> string set" where
  "addForbidden S ab =
     (case ab of (a, b) \<Rightarrow>
        if a \<noteq> [] \<and> b \<noteq> [] then insert (pairKey b a) (insert (pairKey a b) S) else S)"

definition forbiddenSet :: "(string \<times> string) list \<Rightarrow> string set" where
  "forbiddenSet filterPairs = foldl addForbidden {} filterPairs"

text \<open>The array \<^verbatim>\<open>normalParticipants\<close>.\<close>

definition normalParticipants :: "string list \<Rightarrow> string list \<Rightarrow> participant list" where
  "normalParticipants normals remain = map (asType normal) normals @ map (asType leader) remain"

text \<open>
  \<^verbatim>\<open>pairs.map((pair, index) => ({...pair, id: index + 1}))\<close>.
\<close>

definition withId :: "pair \<Rightarrow> nat \<Rightarrow> finalPair" where
  "withId p index = pair.extend p (finalPair.fields (index + 1))"

definition renumber :: "pair list \<Rightarrow> finalPair list" where
  "renumber ps = map (\<lambda>(p, index). withId p index) (zip ps [0..<length ps])"

definition rulesText :: "rule list" where
  "rulesText = [NewbieOnlyWithNewbieOrLeader, LeadersNotTogether, NormalWithAnyone,
                FilterPairsForbidden]"

text \<open>
  Where \<^verbatim>\<open>makeNewbieParticipants\<close> has returned \<^verbatim>\<open>[]\<close>, the field
  \<^verbatim>\<open>newbieParticipantsData.remainLeaders\<close> is \<^verbatim>\<open>undefined\<close> and the call of \<^verbatim>\<open>.map\<close> on it,
  in the array literal of \<^verbatim>\<open>normalParticipants\<close>, throws a \<^verbatim>\<open>TypeError\<close>.
\<close>

definition makePairs ::
  "(nat \<Rightarrow> nat) \<Rightarrow> (nat \<Rightarrow> string) \<Rightarrow> string list \<Rightarrow> string list \<Rightarrow> string list
     \<Rightarrow> (string \<times> string) list \<Rightarrow> error + pairingResult" where
  "makePairs random now normals newbies leaders filterPairs =
     (let totalCount = length normals + length newbies + length leaders in
      if totalCount = 0 then Inr \<lparr>pairs = [], metadata = ErrorNoParticipants\<rparr>
      else if totalCount = 1 then Inl OnlyOneParticipant
      else
        (let fset = Some (forbiddenSet filterPairs);
             npd = makeNewbieParticipants random newbies leaders 0
         in case fst npd of
              EmptyArray \<Rightarrow> Inl TypeError
            | Groups groupA remain \<Rightarrow>
               (let groupB = normalParticipants normals remain in
                case (if length groupA > 0 then shuffleAndPair random now groupA fset (snd npd) 0
                      else Inr ([], snd npd, 0)) of
                  Inl e \<Rightarrow> Inl e
                | Inr (newbieLeaderPairs, k1, d1) \<Rightarrow>
                   (case (if length groupB > 0 then shuffleAndPair random now groupB fset k1 d1
                          else Inr ([], k1, d1)) of
                      Inl e \<Rightarrow> Inl e
                    | Inr (normalPairs, k2, d2) \<Rightarrow>
                       (let finalPairs = renumber (newbieLeaderPairs @ normalPairs) in
                        case validResult finalPairs of
                          Inl e \<Rightarrow> Inl e
                        | Inr u \<Rightarrow>
                            Inr \<lparr>pairs = finalPairs,
                                 metadata = Full
                                   \<lparr>totalParticipants = totalCount,
                                    usedParticipants = totalCount,
                                    excludedParticipants = 0,
                                    excluded = [],
                                    forbiddenPairs = length filterPairs,
                                    generatedAt = now d2,
                                    rules = rulesText\<rparr>\<rparr>)))))"

subsection \<open>\<^verbatim>\<open>SheetDataService.makeRandomPairs\<close>\<close>

text \<open>
  The argument \<^verbatim>\<open>data\<close>: \<open>None\<close> is a missing object or a missing field. An array is
  truthy also when it is empty.
\<close>

record sheetData =
  normals :: "string list option"
  newbies :: "string list option"
  leaders :: "string list option"
  filterPairs :: "(string \<times> string) list"

definition makeRandomPairs ::
  "(nat \<Rightarrow> nat) \<Rightarrow> (nat \<Rightarrow> string) \<Rightarrow> sheetData option \<Rightarrow> error + pairingResult" where
  "makeRandomPairs random now data =
     (case data of
        None \<Rightarrow> Inl NoValidData
      | Some dt \<Rightarrow>
         (case (normals dt, newbies dt, leaders dt) of
            (Some ns, Some nb, Some ls) \<Rightarrow> makePairs random now ns nb ls []
          | _ \<Rightarrow> Inl NoValidData))"

subsection \<open>Notions used to state the properties\<close>

text \<open>
  The array that one run of the Fisher-Yates loop makes of a copy of
  \<open>participants\<close>, when \<open>k\<close> draws have been made before.
\<close>

definition shuffleOf :: "(nat \<Rightarrow> nat) \<Rightarrow> 'a list \<Rightarrow> nat \<Rightarrow> 'a list" where
  "shuffleOf random participants k =
     fst (fisherYates random (length participants - 1) k participants)"

text \<open>The test of the inner loop at index \<open>i\<close>.\<close>

definition validAt :: "string set option \<Rightarrow> participant list \<Rightarrow> nat \<Rightarrow> bool" where
  "validAt fset shuffled i =
     isValidPair (shuffled ! i) (shuffled ! ((i + 1) mod length shuffled)) fset"

text \<open>Every index of the cycle passes the test.\<close>

definition cycleValid :: "string set option \<Rightarrow> participant list \<Rightarrow> bool" where
  "cycleValid fset shuffled = list_all (validAt fset shuffled) [0..<length shuffled]"

text \<open>The number of pairs pushed before the first index that fails the test.\<close>

definition pushed :: "string set option \<Rightarrow> participant list \<Rightarrow> nat" where
  "pushed fset shuffled = length (takeWhile (validAt fset shuffled) [0..<length shuffled])"

text \<open>
  The object pushed at index \<open>i\<close> by an attempt that started with
  \<open>d\<close> looks at the clock.
\<close>

definition pairAt :: "(nat \<Rightarrow> string) \<Rightarrow> participant list \<Rightarrow> nat \<Rightarrow> nat \<Rightarrow> pair" where
  "pairAt now shuffled d i =
     \<lparr>giver = name (shuffled ! i), giverType = type (shuffled ! i),
      receiver = name (shuffled ! ((i + 1) mod length shuffled)),
      receiverType = type (shuffled ! ((i + 1) mod length shuffled)),
      createdAt = now (d + i)\<rparr>"

text \<open>The array \<^verbatim>\<open>pairs\<close> of an attempt that succeeds.\<close>

definition cyclePairs :: "(nat \<Rightarrow> string) \<Rightarrow> participant list \<Rightarrow> nat \<Rightarrow> pair list" where
  "cyclePairs now shuffled d = map (pairAt now shuffled d) [0..<length shuffled]"

text \<open>
  The number of looks at the clock after \<open>a\<close> attempts that failed.
\<close>

primrec clockAfter ::
  "(nat \<Rightarrow> nat) \<Rightarrow> string set option \<Rightarrow> participant list \<Rightarrow> nat \<Rightarrow> nat \<Rightarrow> nat \<Rightarrow> nat" where
  "clockAfter random fset participants k d 0 = d"
| "clockAfter random fset participants k d (Suc a) =
     clockAfter random fset participants k d a
       + pushed fset (shuffleOf random participants (k + a * (length participants - 1)))"

text \<open>
  Attempt number \<open>a\<close> (from 0) starts after \<open>a * (length - 1)\<close>
  further draws; it succeeds when its cycle is valid.
\<close>

definition attemptValid ::
  "(nat \<Rightarrow> nat) \<Rightarrow> string set option \<Rightarrow> participant list \<Rightarrow> nat \<Rightarrow> nat \<Rightarrow> bool" where
  "attemptValid random fset participants k a =
     cycleValid fset (shuffleOf random participants (k + a * (length participants - 1)))"

text \<open>
  The first of the attempts \<open>0, ..., maxAttempts - 1\<close> that succeeds, if any.
\<close>

definition firstValid ::
  "(nat \<Rightarrow> nat) \<Rightarrow> string set option \<Rightarrow> participant list \<Rightarrow> nat \<Rightarrow> nat option" where
  "firstValid random fset participants k =
     find (attemptValid random fset participants k) [0..<maxAttempts]"

text \<open>The giver of a pair, as a participant object.\<close>

definition giverOf :: "'a pair_scheme \<Rightarrow> participant" where
  "giverOf p = \<lparr>name = giver p, type = giverType p\<rparr>"

text \<open>The receiver of a pair, as a participant object.\<close>

definition receiverOf :: "'a pair_scheme \<Rightarrow> participant" where
  "receiverOf p = \<lparr>name = receiver p, type = receiverType p\<rparr>"

text \<open>The whole population, each name with the category of the list it came from.\<close>

definition allParticipants :: "string list \<Rightarrow> string list \<Rightarrow> string list \<Rightarrow> participant list" where
  "allParticipants ns nb ls =
     map (asType normal) ns @ map (asType newbie) nb @ map (asType leader) ls"

text \<open>
  An example run: the draws \<open>0\<close> (first group) and \<open>3, 1, 1\<close>
  (second group).
\<close>

definition exampleRandom :: "nat \<Rightarrow> nat" where
  "exampleRandom k = [0, 3, 1, 1] ! k"

text \<open>
  The result of the example run for the normal members \<open>A, B, C, D\<close>, the
  newbie \<open>N\<close>, the leader \<open>L\<close> and the forbidden pair \<open>(A,
  B)\<close>.
\<close>

definition exampleResult :: pairingResult where
  "exampleResult =
     \<lparr>pairs =
        [\<lparr>giver = ''L'', giverType = leader, receiver = ''N'', receiverType = newbie,
          createdAt = ''t'', id' = 1\<rparr>,
         \<lparr>giver = ''N'', giverType = newbie, receiver = ''L'', receiverType = leader,
          createdAt = ''t'', id' = 2\<rparr>,
         \<lparr>giver = ''A'', giverType = normal, receiver = ''C'', receiverType = normal,
          createdAt = ''t'', id' = 3\<rparr>,
         \<lparr>giver = ''C'', giverType = normal, receiver = ''B'', receiverType = normal,
          createdAt = ''t'', id' = 4\<rparr>,
         \<lparr>giver = ''B'', giverType = normal, receiver = ''D'', receiverType = normal,
          createdAt = ''t'', id' = 5\<rparr>,
         \<lparr>giver = ''D'', giverType = normal, receiver = ''A'', receiverType = normal,
          createdAt = ''t'', id' = 6\<rparr>],
      metadata = Full
        \<lparr>totalParticipants = 6, usedParticipants = 6, excludedParticipants = 0,
         excluded = [], forbiddenPairs = 1, generatedAt = ''t'', rules = rulesText\<rparr>\<rparr>"

text \<open>
  An assignment without its time stamp: giver, giver's category, receiver, receiver's
  category and id.
\<close>

definition assignment :: "finalPair \<Rightarrow> string \<times> ptype \<times> string \<times> ptype \<times> nat" where
  "assignment p = (giver p, giverType p, receiver p, receiverType p, id' p)"

text \<open>The assignments of a run in their order, or the error the run threw.\<close>

definition assignmentSequence ::
  "error + pairingResult \<Rightarrow> error + (string \<times> ptype \<times> string \<times> ptype \<times> nat) list" where
  "assignmentSequence r =
     (case r of Inl e \<Rightarrow> Inl e | Inr res \<Rightarrow> Inr (map assignment (pairs res)))"

text \<open>A clock for the examples: every look shows the same text.\<close>

definition exampleNow :: "nat \<Rightarrow> string" where
  "exampleNow d = ''t''"

text \<open>
  The value of \<^verbatim>\<open>result.metadata.forbiddenPairs\<close>: \<open>None\<close> is \<^verbatim>\<open>undefined\<close>, for the
  metadata object that has only the field \<^verbatim>\<open>error\<close>.
\<close>

definition reportedForbiddenPairs :: "pairingResult \<Rightarrow> nat option" where
  "reportedForbiddenPairs res =
     (case metadata res of ErrorNoParticipants \<Rightarrow> None | Full m \<Rightarrow> Some (forbiddenPairs m))"

section \<open>Properties\<close>

subsection \<open>The shuffle and the two loops\<close>

lemma fisherYates_snd: "snd (fisherYates random i k a) = k + i"
  by (induction i arbitrary: k a) (simp_all add: Let_def)

lemma fisherYates_length: "length (fst (fisherYates random i k a)) = length a"
  by (induction i arbitrary: k a) (simp_all add: Let_def)

lemma fisherYates_mset:
  "i < length a \<or> i = 0 \<Longrightarrow> mset (fst (fisherYates random i k a)) = mset a"
proof (induction i arbitrary: k a)
  case 0
  show ?case by simp
next
  case (Suc i)
  let ?j = "random k mod (Suc i + 1)"
  from Suc.prems have i: "Suc i < length a" by simp
  have j: "?j < length a" proof -
    have "?j < Suc i + 1" by (rule mod_less_divisor) simp
    with i show ?thesis by linarith
  qed
  have "mset (a[Suc i := a ! ?j, ?j := a ! Suc i]) = mset a"
    using j i by (rule mset_swap)
  moreover have "i < length (a[Suc i := a ! ?j, ?j := a ! Suc i])" using i by simp
  ultimately show ?case using Suc.IH [of "a[Suc i := a ! ?j, ?j := a ! Suc i]" "Suc k"]
    by (simp add: Let_def)
qed

lemma cycleLoop_from:
  "i \<le> length shuffled \<Longrightarrow>
   cycleLoop now fset shuffled i (d + i) ps =
     (if list_all (validAt fset shuffled) [i..<length shuffled]
      then (Some (ps @ map (pairAt now shuffled d) [i..<length shuffled]), d + length shuffled)
      else (None, d + i + length (takeWhile (validAt fset shuffled) [i..<length shuffled])))"
proof (induction "length shuffled - i" arbitrary: i ps)
  case 0
  then have "i = length shuffled" by simp
  then show ?case by (simp add: cycleLoop.simps)
next
  case (Suc m)
  then have lt: "i < length shuffled" and m: "m = length shuffled - Suc i" by simp_all
  have up: "[i..<length shuffled] = i # [Suc i..<length shuffled]"
    using lt by (simp add: upt_conv_Cons)
  show ?case
  proof (cases "validAt fset shuffled i")
    case False
    then show ?thesis using lt
      by (subst cycleLoop.simps) (simp add: up validAt_def Let_def)
  next
    case True
    have "cycleLoop now fset shuffled i (d + i) ps =
          cycleLoop now fset shuffled (Suc i) (d + Suc i) (ps @ [pairAt now shuffled d i])"
      using lt True by (subst cycleLoop.simps) (simp add: validAt_def Let_def pairAt_def)
    also have "\<dots> = (if list_all (validAt fset shuffled) [Suc i..<length shuffled]
      then (Some ((ps @ [pairAt now shuffled d i]) @ map (pairAt now shuffled d) [Suc i..<length shuffled]), d + length shuffled)
      else (None, d + Suc i + length (takeWhile (validAt fset shuffled) [Suc i..<length shuffled])))"
      using Suc.hyps(1) [OF m] lt by simp
    finally show ?thesis using True by (simp add: up)
  qed
qed

lemma cycleLoop_char:
  "cycleLoop now fset shuffled 0 d [] =
     (if cycleValid fset shuffled then (Some (cyclePairs now shuffled d), d + length shuffled)
      else (None, d + pushed fset shuffled))"
  using cycleLoop_from [of 0 shuffled now fset d "[]"]
  by (simp add: cycleValid_def cyclePairs_def pushed_def)

lemma shuffleOf_length: "length (shuffleOf random participants k) = length participants"
  by (simp add: shuffleOf_def fisherYates_length)

lemma shuffleOf_mset: "mset (shuffleOf random participants k) = mset participants"
  unfolding shuffleOf_def by (rule fisherYates_mset) (cases participants; simp)

lemma attemptLoop_step:
  "attemptLoop random now fset participants attempt k d =
     (if attempt < maxAttempts then
        (if cycleValid fset (shuffleOf random participants k)
         then Inr (cyclePairs now (shuffleOf random participants k) d,
                   k + (length participants - 1), d + length participants)
         else attemptLoop random now fset participants (Suc attempt)
                (k + (length participants - 1))
                (d + pushed fset (shuffleOf random participants k)))
      else Inl (NoValidPairs (length participants)))"
  by (subst attemptLoop.simps)
     (simp add: shuffleOf_def Let_def cycleLoop_char fisherYates_snd fisherYates_length)

lemma attemptLoop_from:
  "attemptLoop random now fset participants attempt
      (k + attempt * (length participants - 1))
      (clockAfter random fset participants k d attempt) =
     (case find (attemptValid random fset participants k) [attempt..<maxAttempts] of
        None \<Rightarrow> Inl (NoValidPairs (length participants))
      | Some a \<Rightarrow>
          Inr (cyclePairs now (shuffleOf random participants (k + a * (length participants - 1)))
                 (clockAfter random fset participants k d a),
               k + (a + 1) * (length participants - 1),
               clockAfter random fset participants k d a + length participants))"
proof (induction "maxAttempts - attempt" arbitrary: attempt)
  case 0
  then have "[attempt..<maxAttempts] = []" by simp
  moreover have "\<not> attempt < maxAttempts" using 0 by simp
  ultimately show ?case by (subst attemptLoop_step) simp
next
  case (Suc m)
  then have lt: "attempt < maxAttempts" and m: "m = maxAttempts - Suc attempt" by simp_all
  have up: "[attempt..<maxAttempts] = attempt # [Suc attempt..<maxAttempts]"
    using lt by (simp add: upt_conv_Cons)
  have nxt: "k + attempt * (length participants - 1) + (length participants - 1)
             = k + Suc attempt * (length participants - 1)"
    by simp
  show ?case
  proof (cases "attemptValid random fset participants k attempt")
    case True
    then show ?thesis using lt
      by (subst attemptLoop_step) (simp add: up attemptValid_def)
  next
    case False
    have "attemptLoop random now fset participants attempt
            (k + attempt * (length participants - 1))
            (clockAfter random fset participants k d attempt) =
          attemptLoop random now fset participants (Suc attempt)
            (k + Suc attempt * (length participants - 1))
            (clockAfter random fset participants k d (Suc attempt))"
      using lt False
      by (subst attemptLoop_step) (simp only: attemptValid_def nxt if_True if_False clockAfter.simps)
    then show ?thesis using Suc.hyps(1) [OF m] False by (simp add: up)
  qed
qed

lemma attemptLoop_char:
  "attemptLoop random now fset participants 0 k d =
     (case firstValid random fset participants k of
        None \<Rightarrow> Inl (NoValidPairs (length participants))
      | Some a \<Rightarrow>
          Inr (cyclePairs now (shuffleOf random participants (k + a * (length participants - 1)))
                 (clockAfter random fset participants k d a),
               k + (a + 1) * (length participants - 1),
               clockAfter random fset participants k d a + length participants))"
  using attemptLoop_from [of random now fset participants 0 k d]
  by (simp add: firstValid_def)

subsection \<open>Groups, results and the forbidden set\<close>

lemma validResultLoop_empty: "validResultLoop {} finalPairs = Inr ()"
  by (induction finalPairs) (simp_all add: Let_def)

lemma validResult_Inr: "validResult finalPairs = Inr ()"
  by (simp add: validResult_def validResultLoop_empty)

lemma shuffleAndPair_guard':
  "(if g \<noteq> [] then shuffleAndPair random now g fset k d else Inr ([], k, d)) =
   shuffleAndPair random now g fset k d"
  by (simp add: shuffleAndPair_def)

lemma shuffleAndPair_char:
  "shuffleAndPair random now participants fset k d =
     (if participants = [] then Inr ([], k, d)
      else if length participants = 1 then Inl (GroupOfOne 1)
      else case firstValid random fset participants k of
             None \<Rightarrow> Inl (NoValidPairs (length participants))
           | Some a \<Rightarrow>
               Inr (cyclePairs now
                      (shuffleOf random participants (k + a * (length participants - 1)))
                      (clockAfter random fset participants k d a),
                    k + (a + 1) * (length participants - 1),
                    clockAfter random fset participants k d a + length participants))"
  by (simp add: shuffleAndPair_def attemptLoop_char)

lemma makePairs_no_newbies:
  "2 \<le> length ns + length ls \<Longrightarrow>
   makePairs random now ns [] ls fp = Inl TypeError"
  by (cases ns; cases ls) (auto simp: makePairs_def makeNewbieParticipants_def Let_def)

lemma makeNewbieParticipants_Groups:
  "nb \<noteq> [] \<Longrightarrow>
   fst (makeNewbieParticipants random nb ls k) =
     Groups (newbieAndLeaders (fst (makeNewbieParticipants random nb ls k)))
            (remainLeaders (fst (makeNewbieParticipants random nb ls k)))"
  by (simp add: makeNewbieParticipants_def Let_def)

lemma makePairs_unfold:
  assumes "nb \<noteq> []" "2 \<le> length ns + length nb + length ls"
  shows "makePairs random now ns nb ls fp =
     (let npd = makeNewbieParticipants random nb ls 0;
          fset = Some (forbiddenSet fp)
      in case shuffleAndPair random now (newbieAndLeaders (fst npd)) fset (snd npd) 0 of
           Inl e \<Rightarrow> Inl e
         | Inr (ps1, k1, d1) \<Rightarrow>
            (case shuffleAndPair random now
                    (normalParticipants ns (remainLeaders (fst npd))) fset k1 d1 of
               Inl e \<Rightarrow> Inl e
             | Inr (ps2, k2, d2) \<Rightarrow>
                 Inr \<lparr>pairs = renumber (ps1 @ ps2),
                      metadata = Full
                        \<lparr>totalParticipants = length ns + length nb + length ls,
                         usedParticipants = length ns + length nb + length ls,
                         excludedParticipants = 0,
                         excluded = [],
                         forbiddenPairs = length fp,
                         generatedAt = now d2,
                         rules = rulesText\<rparr>\<rparr>))"
proof -
  let ?npd = "makeNewbieParticipants random nb ls 0"
  let ?fset = "Some (forbiddenSet fp)"
  obtain ga rm where g: "fst ?npd = Groups ga rm"
    using makeNewbieParticipants_Groups [OF assms(1)] by blast
  have ga: "ga \<noteq> []"
    using assms(1) g by (auto simp: makeNewbieParticipants_def Let_def split: if_splits)
  show ?thesis
  proof (cases "shuffleAndPair random now ga ?fset (snd ?npd) 0")
    case (Inl e)
    then show ?thesis using assms g ga by (simp add: makePairs_def Let_def)
  next
    case (Inr t1)
    obtain ps1 k1 d1 where t1: "t1 = (ps1, k1, d1)" by (cases t1) auto
    show ?thesis
    proof (cases "shuffleAndPair random now (normalParticipants ns rm) ?fset k1 d1")
      case (Inl e)
      then show ?thesis using assms g ga Inr t1
        by (simp add: makePairs_def Let_def shuffleAndPair_guard')
    next
      case r2: (Inr t2)
      obtain ps2 k2 d2 where t2: "t2 = (ps2, k2, d2)" by (cases t2) auto
      show ?thesis using assms g ga Inr t1 r2 t2
        by (simp add: makePairs_def Let_def shuffleAndPair_guard' validResult_Inr)
    qed
  qed
qed

lemma giverOf_cyclePairs: "map giverOf (cyclePairs now sh d) = sh"
  by (rule nth_equalityI) (simp_all add: cyclePairs_def giverOf_def pairAt_def)

lemma receiverOf_cyclePairs: "map receiverOf (cyclePairs now sh d) = rotate1 sh"
  by (rule nth_equalityI)
     (simp_all add: cyclePairs_def receiverOf_def pairAt_def nth_rotate1)

lemma participant_eta: "\<lparr>name = name x, type = type x\<rparr> = (x::participant)"
  by (cases x) simp

lemma valid_cyclePairs:
  assumes "cycleValid fset sh" "p \<in> set (cyclePairs now sh d)"
  shows "isValidPair (giverOf p) (receiverOf p) fset"
proof -
  from assms(2) obtain i where i: "i < length sh" and p: "p = pairAt now sh d i"
    by (auto simp: cyclePairs_def)
  from assms(1) i have "validAt fset sh i"
    by (simp add: cycleValid_def list_all_iff)
  then show ?thesis
    by (simp add: p validAt_def giverOf_def receiverOf_def pairAt_def participant_eta)
qed

lemma shuffleAndPair_Inr:
  assumes "shuffleAndPair random now participants fset k d = Inr (prs, k', d')"
  shows "\<exists>sh d0. mset sh = mset participants \<and> cycleValid fset sh \<and> prs = cyclePairs now sh d0"
proof (cases "participants = []")
  case True
  with assms have "prs = []" by (simp add: shuffleAndPair_def)
  then have "mset [] = mset participants \<and> cycleValid fset [] \<and> prs = cyclePairs now [] 0"
    using True by (simp add: cycleValid_def cyclePairs_def)
  then show ?thesis by blast
next
  case False
  with assms obtain a where a: "firstValid random fset participants k = Some a"
    and prs: "prs = cyclePairs now
                (shuffleOf random participants (k + a * (length participants - 1)))
                (clockAfter random fset participants k d a)"
    by (auto simp: shuffleAndPair_char split: if_splits option.splits)
  from a have "attemptValid random fset participants k a"
    by (auto simp: firstValid_def find_Some_iff)
  then have "cycleValid fset (shuffleOf random participants (k + a * (length participants - 1)))"
    by (simp add: attemptValid_def)
  with prs shuffleOf_mset show ?thesis by blast
qed

lemma giverOf_withId: "giverOf (withId p index) = giverOf p"
  by (simp add: giverOf_def withId_def pair.defs)

lemma receiverOf_withId: "receiverOf (withId p index) = receiverOf p"
  by (simp add: receiverOf_def withId_def pair.defs)

lemma giverOf_renumber: "map giverOf (renumber prs) = map giverOf prs"
  by (rule nth_equalityI) (simp_all add: renumber_def giverOf_withId)

lemma receiverOf_renumber: "map receiverOf (renumber prs) = map receiverOf prs"
  by (rule nth_equalityI) (simp_all add: renumber_def receiverOf_withId)

lemma id_renumber: "map id' (renumber prs) = map Suc [0..<length prs]"
  by (rule nth_equalityI) (simp_all add: renumber_def withId_def pair.defs finalPair.defs)

lemma set_renumber:
  "q \<in> set (renumber prs) \<Longrightarrow> \<exists>p \<in> set prs. giverOf q = giverOf p \<and> receiverOf q = receiverOf p"
  by (auto simp: renumber_def giverOf_withId receiverOf_withId dest!: set_zip_leftD)

lemma addForbidden_mono: "S \<subseteq> foldl addForbidden S fp"
proof (induction fp arbitrary: S)
  case Nil
  show ?case by simp
next
  case (Cons x xs)
  have "S \<subseteq> addForbidden S x" by (auto simp: addForbidden_def split: prod.splits)
  also have "\<dots> \<subseteq> foldl addForbidden (addForbidden S x) xs" by (rule Cons.IH)
  finally show ?case by simp
qed

lemma forbidden_both:
  "(a, b) \<in> set fp \<Longrightarrow> a \<noteq> [] \<Longrightarrow> b \<noteq> [] \<Longrightarrow>
   pairKey a b \<in> foldl addForbidden S fp \<and> pairKey b a \<in> foldl addForbidden S fp"
proof (induction fp arbitrary: S)
  case Nil
  then show ?case by simp
next
  case (Cons x xs)
  show ?case
  proof (cases "x = (a, b)")
    case True
    then have "{pairKey a b, pairKey b a} \<subseteq> addForbidden S x"
      using Cons.prems by (simp add: addForbidden_def)
    also have "\<dots> \<subseteq> foldl addForbidden (addForbidden S x) xs" by (rule addForbidden_mono)
    finally show ?thesis by simp
  next
    case False
    with Cons.prems have "(a, b) \<in> set xs" by simp
    from Cons.IH [OF this Cons.prems(2,3)] show ?thesis by simp
  qed
qed

lemma forbiddenSet_both:
  "(a, b) \<in> set fp \<Longrightarrow> a \<noteq> [] \<Longrightarrow> b \<noteq> [] \<Longrightarrow>
   pairKey a b \<in> forbiddenSet fp \<and> pairKey b a \<in> forbiddenSet fp"
  unfolding forbiddenSet_def by (rule forbidden_both)

lemma groups_partition:
  assumes "nb \<noteq> []"
  shows "mset (newbieAndLeaders (fst (makeNewbieParticipants random nb ls k))) +
         mset (normalParticipants ns (remainLeaders (fst (makeNewbieParticipants random nb ls k))))
         = mset (allParticipants ns nb ls)"
proof (cases "length ls \<le> length nb")
  case True
  then show ?thesis using assms
    by (simp add: makeNewbieParticipants_def normalParticipants_def allParticipants_def)
next
  case False
  let ?sh = "fst (fisherYates random (length ls - 1) k ls)"
  have "mset ?sh = mset ls"
    by (rule fisherYates_mset) (cases ls; simp)
  then have "mset (take (length nb) ?sh) + mset (drop (length nb) ?sh) = mset ls"
    by (metis append_take_drop_id mset_append)
  then have "mset (map (asType leader) (take (length nb) ?sh)) +
             mset (map (asType leader) (drop (length nb) ?sh)) = mset (map (asType leader) ls)"
    by (metis image_mset_union mset_map)
  then show ?thesis using assms False
    by (simp add: makeNewbieParticipants_def normalParticipants_def allParticipants_def Let_def
        ac_simps)
qed

section \<open>The claims\<close>

subsection \<open>C5: the eligibility predicate\<close>



subsection \<open>C7: no participant, one participant\<close>

text \<open>
  Claim C7. With no participant in the three lists \<^verbatim>\<open>makePairs\<close> returns, without an
  exception, the result with the empty list of pairs and \<^verbatim>\<open>metadata.error\<close>; with exactly
  one participant it throws.
\<close>

theorem makePairs_zero_or_one:
  "(length ns + length nb + length ls = 0 \<longrightarrow>
      makePairs random now ns nb ls fp = Inr \<lparr>pairs = [], metadata = ErrorNoParticipants\<rparr>) \<and>
   (length ns + length nb + length ls = 1 \<longrightarrow>
      makePairs random now ns nb ls fp = Inl OnlyOneParticipant)"
  by (simp add: makePairs_def Let_def)

theorem makePairs_zero_or_one_witness:
  "makePairs (\<lambda>k. 0) (\<lambda>d. ''t'') [] [] [] [(''A'', ''B'')]
     = Inr \<lparr>pairs = [], metadata = ErrorNoParticipants\<rparr> \<and>
   makePairs (\<lambda>k. 0) (\<lambda>d. ''t'') [] [''N''] [] [] = Inl OnlyOneParticipant \<and>
   makePairs (\<lambda>k. 0) (\<lambda>d. ''t'') [''A''] [] [] [] = Inl OnlyOneParticipant"
  using makePairs_zero_or_one [of "[]" "[]" "[]" "\<lambda>k. 0" "\<lambda>d. ''t''" "[(''A'', ''B'')]"]
    makePairs_zero_or_one [of "[]" "[''N'']" "[]" "\<lambda>k. 0" "\<lambda>d. ''t''" "[]"]
    makePairs_zero_or_one [of "[''A'']" "[]" "[]" "\<lambda>k. 0" "\<lambda>d. ''t''" "[]"]
  by simp

subsection \<open>C2: no newbie\<close>

text \<open>
  Claim C2 says that with no newbie and at least two participants the first group is
  skipped and the normal members and all leaders are matched as one group. In the code
  \<^verbatim>\<open>makeNewbieParticipants\<close> then returns \<^verbatim>\<open>[]\<close> in place of the object with the two
  fields, and \<^verbatim>\<open>makePairs\<close> throws a \<^verbatim>\<open>TypeError\<close> when it reads
  \<^verbatim>\<open>remainLeaders.map\<close>: every such call fails, whatever the draws are.
\<close>

theorem no_newbies_TypeError:
  "2 \<le> length ns + length ls \<longrightarrow> makePairs random now ns [] ls fp = Inl TypeError"
  by (simp add: makePairs_no_newbies)

theorem no_newbies_TypeError_witness:
  "makePairs (\<lambda>k. 0) (\<lambda>d. ''t'') [''A'', ''B'', ''C''] [] [''L''] [] = Inl TypeError"
  using no_newbies_TypeError [of "[''A'', ''B'', ''C'']" "[''L'']" "\<lambda>k. 0" "\<lambda>d. ''t''" "[]"]
  by simp

subsection \<open>C1: pairs in both directions\<close>

text \<open>
  Claim C1 says that \<^verbatim>\<open>validResult\<close> throws when the final list holds a pair and its
  reverse, so that no result has both. In the code the set \<^verbatim>\<open>pairSet\<close> is never added
  to, \<^verbatim>\<open>validResult\<close> accepts every list, and the call for one newbie \<open>N\<close> and one leader
  \<open>L\<close> returns the two pairs \<open>L \<rightarrow> N\<close> and \<open>N \<rightarrow> L\<close>.
\<close>

theorem mutual_pair_returned:
  "makePairs (\<lambda>k. 0) (\<lambda>d. ''t'') [] [''N''] [''L''] [] =
     Inr \<lparr>pairs =
            [\<lparr>giver = ''L'', giverType = leader, receiver = ''N'', receiverType = newbie,
              createdAt = ''t'', id' = 1\<rparr>,
             \<lparr>giver = ''N'', giverType = newbie, receiver = ''L'', receiverType = leader,
              createdAt = ''t'', id' = 2\<rparr>],
          metadata = Full
            \<lparr>totalParticipants = 2, usedParticipants = 2, excludedParticipants = 0,
             excluded = [], forbiddenPairs = 0, generatedAt = ''t'', rules = rulesText\<rparr>\<rparr> \<and>
   (\<forall>finalPairs. validResult finalPairs = Inr ())"
  apply (rule conjI)
   apply code_simp
  apply (simp add: validResult_Inr)
  done

subsection \<open>What a returned result is made of\<close>

lemma makePairs_Inr_cases:
  assumes "makePairs random now ns nb ls fp = Inr res"
  shows "(ns = [] \<and> nb = [] \<and> ls = [] \<and> pairs res = []) \<or>
         (nb \<noteq> [] \<and>
          (\<exists>shA shB dA dB.
             mset shA = mset (newbieAndLeaders (fst (makeNewbieParticipants random nb ls 0))) \<and>
             mset shB = mset (normalParticipants ns
                               (remainLeaders (fst (makeNewbieParticipants random nb ls 0)))) \<and>
             cycleValid (Some (forbiddenSet fp)) shA \<and>
             cycleValid (Some (forbiddenSet fp)) shB \<and>
             pairs res = renumber (cyclePairs now shA dA @ cyclePairs now shB dB)))"
proof (cases "length ns + length nb + length ls = 0")
  case True
  with assms show ?thesis by (auto simp: makePairs_def)
next
  case False
  have "length ns + length nb + length ls \<noteq> 1"
  proof
    assume "length ns + length nb + length ls = 1"
    with assms show False by (simp add: makePairs_def Let_def)
  qed
  with False have two: "2 \<le> length ns + length nb + length ls" by linarith
  have nb: "nb \<noteq> []"
  proof
    assume "nb = []"
    with two assms show False by (simp add: makePairs_no_newbies)
  qed
  let ?npd = "makeNewbieParticipants random nb ls 0"
  let ?fset = "Some (forbiddenSet fp)"
  let ?A = "newbieAndLeaders (fst ?npd)"
  let ?B = "normalParticipants ns (remainLeaders (fst ?npd))"
  from assms obtain ps1 k1 d1 where
    r1: "shuffleAndPair random now ?A ?fset (snd ?npd) 0 = Inr (ps1, k1, d1)"
    by (auto simp: makePairs_unfold [OF nb two] Let_def split: sum.splits)
  with assms obtain ps2 k2 d2 where
    r2: "shuffleAndPair random now ?B ?fset k1 d1 = Inr (ps2, k2, d2)"
    by (auto simp: makePairs_unfold [OF nb two] Let_def split: sum.splits)
  from assms r1 r2 have res: "pairs res = renumber (ps1 @ ps2)"
    by (auto simp: makePairs_unfold [OF nb two] Let_def)
  from shuffleAndPair_Inr [OF r1] obtain shA dA where
    A: "mset shA = mset ?A" "cycleValid ?fset shA" "ps1 = cyclePairs now shA dA" by blast
  from shuffleAndPair_Inr [OF r2] obtain shB dB where
    B: "mset shB = mset ?B" "cycleValid ?fset shB" "ps2 = cyclePairs now shB dB" by blast
  from nb A B res show ?thesis by blast
qed

lemma makePairs_pair_valid:
  assumes "makePairs random now ns nb ls fp = Inr res" "q \<in> set (pairs res)"
  shows "isValidPair (giverOf q) (receiverOf q) (Some (forbiddenSet fp))"
  using makePairs_Inr_cases [OF assms(1)]
proof (elim disjE conjE exE)
  assume "pairs res = []"
  with assms(2) show ?thesis by simp
next
  fix shA shB dA dB
  assume v: "cycleValid (Some (forbiddenSet fp)) shA" "cycleValid (Some (forbiddenSet fp)) shB"
    and res: "pairs res = renumber (cyclePairs now shA dA @ cyclePairs now shB dB)"
  from assms(2) res obtain p where
    p: "p \<in> set (cyclePairs now shA dA) \<or> p \<in> set (cyclePairs now shB dB)"
    and eq: "giverOf q = giverOf p" "receiverOf q = receiverOf p"
    using set_renumber [of q "cyclePairs now shA dA @ cyclePairs now shB dB"] by auto
  from p v have "isValidPair (giverOf p) (receiverOf p) (Some (forbiddenSet fp))"
    by (auto intro: valid_cyclePairs)
  with eq show ?thesis by simp
qed

lemma makePairs_givers_receivers:
  assumes "makePairs random now ns nb ls fp = Inr res"
  shows "mset (map giverOf (pairs res)) = mset (allParticipants ns nb ls) \<and>
         mset (map receiverOf (pairs res)) = mset (allParticipants ns nb ls)"
  using makePairs_Inr_cases [OF assms]
proof (elim disjE conjE exE)
  assume "ns = []" "nb = []" "ls = []" "pairs res = []"
  then show ?thesis by (simp add: allParticipants_def)
next
  fix shA shB dA dB
  assume nb: "nb \<noteq> []"
    and A: "mset shA = mset (newbieAndLeaders (fst (makeNewbieParticipants random nb ls 0)))"
    and B: "mset shB = mset (normalParticipants ns
                               (remainLeaders (fst (makeNewbieParticipants random nb ls 0))))"
    and res: "pairs res = renumber (cyclePairs now shA dA @ cyclePairs now shB dB)"
  have all: "mset shA + mset shB = mset (allParticipants ns nb ls)"
    unfolding A B by (rule groups_partition [OF nb])
  have "map giverOf (pairs res) = shA @ shB"
    by (simp add: res giverOf_renumber giverOf_cyclePairs)
  moreover have "map receiverOf (pairs res) = rotate1 shA @ rotate1 shB"
    by (simp add: res receiverOf_renumber receiverOf_cyclePairs)
  moreover have "mset (rotate1 xs) = mset xs" for xs :: "participant list"
    by (cases xs) simp_all
  ultimately show ?thesis using all by simp
qed

subsection \<open>C4: a forbidden pair is blocked in both directions\<close>

text \<open>
  Claim C4. For a pair \<open>(a, b)\<close> of \<^verbatim>\<open>filterPairs\<close> with two non-empty names, no pair of a
  result that \<^verbatim>\<open>makePairs\<close> returns has giver \<open>a\<close> and receiver \<open>b\<close>, and none has giver
  \<open>b\<close> and receiver \<open>a\<close>.
\<close>

theorem forbidden_pair_blocked:
  assumes "makePairs random now ns nb ls fp = Inr res"
    and "(a, b) \<in> set fp" "a \<noteq> []" "b \<noteq> []"
    and "p \<in> set (pairs res)"
  shows "\<not> (giver p = a \<and> receiver p = b) \<and> \<not> (giver p = b \<and> receiver p = a)"
proof -
  have "isValidPair (giverOf p) (receiverOf p) (Some (forbiddenSet fp))"
    using assms(1,5) by (rule makePairs_pair_valid)
  then have "pairKey (giver p) (receiver p) \<notin> forbiddenSet fp"
    by (simp add: isValidPair_def giverOf_def receiverOf_def split: if_splits)
  moreover have "pairKey a b \<in> forbiddenSet fp \<and> pairKey b a \<in> forbiddenSet fp"
    using assms(2-4) by (rule forbiddenSet_both)
  ultimately show ?thesis by auto
qed

subsection \<open>C6: everybody gives once and receives once\<close>

text \<open>
  Claim C6. In a result that \<^verbatim>\<open>makePairs\<close> returns, the givers are the participants of the
  input, each as often as the input has it, and so are the receivers; where the names of
  the input are distinct, every name is the giver of exactly one pair and the receiver of
  exactly one pair.
\<close>

theorem every_participant_once:
  assumes "makePairs random now ns nb ls fp = Inr res"
  shows "mset (map giverOf (pairs res)) = mset (allParticipants ns nb ls) \<and>
         mset (map receiverOf (pairs res)) = mset (allParticipants ns nb ls) \<and>
         (distinct (ns @ nb @ ls) \<and> x \<in> set (ns @ nb @ ls) \<longrightarrow>
            length (filter (\<lambda>p. giver p = x) (pairs res)) = 1 \<and>
            length (filter (\<lambda>p. receiver p = x) (pairs res)) = 1)"
proof -
  note gr = makePairs_givers_receivers [OF assms]
  have names: "map name (allParticipants ns nb ls) = ns @ nb @ ls"
    by (simp add: allParticipants_def asType_def comp_def)
  have g: "map giver (pairs res) = map name (map giverOf (pairs res))"
    and r: "map receiver (pairs res) = map name (map receiverOf (pairs res))"
    by (simp_all add: giverOf_def receiverOf_def comp_def)
  have "mset (map giver (pairs res)) = mset (ns @ nb @ ls)"
    unfolding g using gr names by (metis mset_map)
  moreover have "mset (map receiver (pairs res)) = mset (ns @ nb @ ls)"
    unfolding r using gr names by (metis mset_map)
  moreover have "length (filter (\<lambda>p. f p = x) ps) = count (mset (map f ps)) x" for f :: "finalPair \<Rightarrow> string" and ps
    by (induction ps) auto
  ultimately have "distinct (ns @ nb @ ls) \<and> x \<in> set (ns @ nb @ ls) \<longrightarrow>
            length (filter (\<lambda>p. giver p = x) (pairs res)) = 1 \<and>
            length (filter (\<lambda>p. receiver p = x) (pairs res)) = 1"
    by (simp only: distinct_count_atmost_1) simp
  with gr show ?thesis by blast
qed

lemma example_run:
  "makePairs exampleRandom (\<lambda>d. ''t'') [''A'', ''B'', ''C'', ''D''] [''N''] [''L'']
     [(''A'', ''B'')] = Inr exampleResult"
  by code_simp

theorem forbidden_pair_blocked_witness:
  "makePairs exampleRandom (\<lambda>d. ''t'') [''A'', ''B'', ''C'', ''D''] [''N''] [''L'']
     [(''A'', ''B'')] = Inr exampleResult \<and>
   (''A'', ''B'') \<in> set [(''A'', ''B'')] \<and>
   pairs exampleResult ! 2 \<in> set (pairs exampleResult) \<and>
   giver (pairs exampleResult ! 2) = ''A'' \<and>
   receiver (pairs exampleResult ! 2) \<noteq> ''B'' \<and>
   \<not> (giver (pairs exampleResult ! 2) = ''B'' \<and> receiver (pairs exampleResult ! 2) = ''A'')"
  using forbidden_pair_blocked [OF example_run, of "''A''" "''B''" "pairs exampleResult ! 2"]
    example_run
  by (simp add: exampleResult_def)

theorem every_participant_once_witness:
  "makePairs exampleRandom (\<lambda>d. ''t'') [''A'', ''B'', ''C'', ''D''] [''N''] [''L'']
     [(''A'', ''B'')] = Inr exampleResult \<and>
   mset (map giverOf (pairs exampleResult))
     = mset (allParticipants [''A'', ''B'', ''C'', ''D''] [''N''] [''L'']) \<and>
   mset (map receiverOf (pairs exampleResult))
     = mset (allParticipants [''A'', ''B'', ''C'', ''D''] [''N''] [''L'']) \<and>
   distinct ([''A'', ''B'', ''C'', ''D''] @ [''N''] @ [''L'']) \<and>
   length (filter (\<lambda>p. giver p = ''C'') (pairs exampleResult)) = 1 \<and>
   length (filter (\<lambda>p. receiver p = ''C'') (pairs exampleResult)) = 1"
  using every_participant_once [OF example_run, of "''C''"] example_run
  by simp

subsection \<open>C3: the caller passes no forbidden pairs\<close>

lemma makeRandomPairs_present:
  assumes "normals dt = Some ns" "newbies dt = Some nb" "leaders dt = Some ls"
  shows "makeRandomPairs random now (Some dt) = makePairs random now ns nb ls [] \<and>
         makeRandomPairs random now (Some (dt\<lparr>filterPairs := fp\<rparr>))
           = makeRandomPairs random now (Some dt) \<and>
         (\<forall>res. makeRandomPairs random now (Some dt) = Inr res \<longrightarrow>
            metadata res = ErrorNoParticipants \<and> ns = [] \<and> nb = [] \<and> ls = [] \<or>
            (\<exists>m. metadata res = Full m \<and> forbiddenPairs m = 0))"
proof -
  have eq: "makeRandomPairs random now (Some dt) = makePairs random now ns nb ls []"
    using assms by (simp add: makeRandomPairs_def)
  have same: "makeRandomPairs random now (Some (dt\<lparr>filterPairs := fp\<rparr>))
           = makeRandomPairs random now (Some dt)"
    using assms by (simp add: makeRandomPairs_def)
  have meta: "metadata res = ErrorNoParticipants \<and> ns = [] \<and> nb = [] \<and> ls = [] \<or>
            (\<exists>m. metadata res = Full m \<and> forbiddenPairs m = 0)"
    if r: "makePairs random now ns nb ls [] = Inr res" for res
  proof (cases "length ns + length nb + length ls = 0")
    case True
    with r show ?thesis by (auto simp: makePairs_def)
  next
    case False
    have "length ns + length nb + length ls \<noteq> 1"
    proof
      assume "length ns + length nb + length ls = 1"
      with r show False by (simp add: makePairs_def Let_def)
    qed
    with False have two: "2 \<le> length ns + length nb + length ls" by linarith
    have nb: "nb \<noteq> []"
    proof
      assume "nb = []"
      with two r show False by (simp add: makePairs_no_newbies)
    qed
    from r show ?thesis
      by (auto simp: makePairs_unfold [OF nb two] Let_def split: sum.splits)
  qed
  from eq same meta show ?thesis by simp
qed

text \<open>
  Claim C3 speaks of every \<^verbatim>\<open>data\<close> object and of a metadata that reports 0 forbidden
  pairs. For the empty population the result is \<^verbatim>\<open>{pairs: [], metadata: {error}}\<close>, whose
  metadata has no count of forbidden pairs at all, and for a missing \<^verbatim>\<open>data\<close> object or a
  missing list \<^verbatim>\<open>makeRandomPairs\<close> throws at its own guard, before any call of
  \<^verbatim>\<open>makePairs\<close>.
\<close>

theorem makeRandomPairs_every_data_counterexample:
  "makeRandomPairs exampleRandom exampleNow
     (Some \<lparr>normals = Some [], newbies = Some [], leaders = Some [],
            filterPairs = [(''A'', ''B'')]\<rparr>)
     = Inr \<lparr>pairs = [], metadata = ErrorNoParticipants\<rparr> \<and>
   reportedForbiddenPairs \<lparr>pairs = [], metadata = ErrorNoParticipants\<rparr> \<noteq> Some 0 \<and>
   makeRandomPairs exampleRandom exampleNow None = Inl NoValidData \<and>
   makeRandomPairs exampleRandom exampleNow
     (Some \<lparr>normals = None, newbies = Some [''N''], leaders = Some [''L''],
            filterPairs = []\<rparr>)
     = Inl NoValidData"
  by (simp add: makeRandomPairs_def makePairs_def reportedForbiddenPairs_def)

text \<open>
  Claim C3, amended. For a \<^verbatim>\<open>data\<close> object that has the three lists,
  \<^verbatim>\<open>SheetDataService.makeRandomPairs\<close> is \<^verbatim>\<open>makePairs\<close> on the three lists with the empty
  list of forbidden pairs: the field \<^verbatim>\<open>data.filterPairs\<close> has no influence, and the
  metadata of a returned result reports 0 forbidden pairs when the population is not
  empty and no count when it is empty. For a missing \<^verbatim>\<open>data\<close> object or a missing list
  \<^verbatim>\<open>makeRandomPairs\<close> throws.
\<close>

theorem makeRandomPairs_ignores_filterPairs:
  "(normals dt = Some ns \<and> newbies dt = Some nb \<and> leaders dt = Some ls \<longrightarrow>
      makeRandomPairs random now (Some dt) = makePairs random now ns nb ls [] \<and>
      makeRandomPairs random now (Some (dt\<lparr>filterPairs := fp\<rparr>))
        = makeRandomPairs random now (Some dt) \<and>
      (\<forall>res. makeRandomPairs random now (Some dt) = Inr res \<longrightarrow>
         reportedForbiddenPairs res
           = (if ns = [] \<and> nb = [] \<and> ls = [] then None else Some 0))) \<and>
   (normals dt = None \<or> newbies dt = None \<or> leaders dt = None \<longrightarrow>
      makeRandomPairs random now (Some dt) = Inl NoValidData) \<and>
   makeRandomPairs random now None = Inl NoValidData"
proof (intro conjI impI)
  assume p: "normals dt = Some ns \<and> newbies dt = Some nb \<and> leaders dt = Some ls"
  then have h: "normals dt = Some ns" "newbies dt = Some nb" "leaders dt = Some ls"
    by simp_all
  note pres = makeRandomPairs_present [OF h, of random now fp]
  from pres show "makeRandomPairs random now (Some dt) = makePairs random now ns nb ls []"
    by blast
  from pres show "makeRandomPairs random now (Some (dt\<lparr>filterPairs := fp\<rparr>))
        = makeRandomPairs random now (Some dt)"
    by blast
  show "\<forall>res. makeRandomPairs random now (Some dt) = Inr res \<longrightarrow>
         reportedForbiddenPairs res
           = (if ns = [] \<and> nb = [] \<and> ls = [] then None else Some 0)"
  proof (intro allI impI)
    fix res
    assume r: "makeRandomPairs random now (Some dt) = Inr res"
    with pres have m: "metadata res = ErrorNoParticipants \<and> ns = [] \<and> nb = [] \<and> ls = [] \<or>
            (\<exists>m. metadata res = Full m \<and> forbiddenPairs m = 0)"
      by blast
    show "reportedForbiddenPairs res
           = (if ns = [] \<and> nb = [] \<and> ls = [] then None else Some 0)"
    proof (cases "ns = [] \<and> nb = [] \<and> ls = []")
      case True
      with r pres have "res = \<lparr>pairs = [], metadata = ErrorNoParticipants\<rparr>"
        by (simp add: makePairs_def)
      with True show ?thesis by (simp add: reportedForbiddenPairs_def)
    next
      case False
      with m show ?thesis by (auto simp: reportedForbiddenPairs_def)
    qed
  qed
next
  assume "normals dt = None \<or> newbies dt = None \<or> leaders dt = None"
  then show "makeRandomPairs random now (Some dt) = Inl NoValidData"
    by (auto simp: makeRandomPairs_def split: option.splits)
next
  show "makeRandomPairs random now None = Inl NoValidData"
    by (simp add: makeRandomPairs_def)
qed

theorem makeRandomPairs_ignores_filterPairs_witness:
  "makeRandomPairs (\<lambda>k. 0) (\<lambda>d. ''t'')
     (Some \<lparr>normals = Some [], newbies = Some [''N''], leaders = Some [''L''],
            filterPairs = [(''N'', ''L'')]\<rparr>)
   = Inr \<lparr>pairs =
            [\<lparr>giver = ''L'', giverType = leader, receiver = ''N'', receiverType = newbie,
              createdAt = ''t'', id' = 1\<rparr>,
             \<lparr>giver = ''N'', giverType = newbie, receiver = ''L'', receiverType = leader,
              createdAt = ''t'', id' = 2\<rparr>],
          metadata = Full
            \<lparr>totalParticipants = 2, usedParticipants = 2, excludedParticipants = 0,
             excluded = [], forbiddenPairs = 0, generatedAt = ''t'', rules = rulesText\<rparr>\<rparr> \<and>
   makePairs (\<lambda>k. 0) (\<lambda>d. ''t'') [] [''N''] [''L''] [(''N'', ''L'')] = Inl (NoValidPairs 2) \<and>
   makeRandomPairs (\<lambda>k. 0) (\<lambda>d. ''t'')
     (Some \<lparr>normals = Some [''A''], newbies = None, leaders = Some [''L''],
            filterPairs = []\<rparr>)
   = Inl NoValidData"
proof -
  have "makePairs (\<lambda>k. 0) (\<lambda>d. ''t'') [] [''N''] [''L''] [] =
     Inr \<lparr>pairs =
            [\<lparr>giver = ''L'', giverType = leader, receiver = ''N'', receiverType = newbie,
              createdAt = ''t'', id' = 1\<rparr>,
             \<lparr>giver = ''N'', giverType = newbie, receiver = ''L'', receiverType = leader,
              createdAt = ''t'', id' = 2\<rparr>],
          metadata = Full
            \<lparr>totalParticipants = 2, usedParticipants = 2, excludedParticipants = 0,
             excluded = [], forbiddenPairs = 0, generatedAt = ''t'', rules = rulesText\<rparr>\<rparr>"
    by code_simp
  moreover have "makePairs (\<lambda>k. 0) (\<lambda>d. ''t'') [] [''N''] [''L''] [(''N'', ''L'')]
      = Inl (NoValidPairs 2)"
    by code_simp
  ultimately show ?thesis
    using makeRandomPairs_ignores_filterPairs
      [of "\<lparr>normals = Some [], newbies = Some [''N''], leaders = Some [''L''],
            filterPairs = [(''N'', ''L'')]\<rparr>" "[]" "[''N'']" "[''L'']" "\<lambda>k. 0" "\<lambda>d. ''t''" "[]"]
      makeRandomPairs_ignores_filterPairs
      [of "\<lparr>normals = Some [''A''], newbies = None, leaders = Some [''L''],
            filterPairs = []\<rparr>" "[]" "[]" "[]" "\<lambda>k. 0" "\<lambda>d. ''t''" "[]"]
    by simp
qed

subsection \<open>C9: the attempts of shuffleAndPair\<close>

lemma pushed_first_invalid:
  assumes "\<not> cycleValid fset sh"
  shows "pushed fset sh < length sh \<and> \<not> validAt fset sh (pushed fset sh) \<and>
         (\<forall>i<pushed fset sh. validAt fset sh i)"
proof -
  let ?P = "validAt fset sh"
  let ?xs = "[0..<length sh]"
  from assms have ex: "\<exists>x\<in>set ?xs. \<not> ?P x"
    by (simp add: cycleValid_def list_all_iff)
  then have "takeWhile ?P ?xs \<noteq> ?xs"
    by (simp only: takeWhile_eq_all_conv) blast
  then have "length (takeWhile ?P ?xs) \<noteq> length ?xs"
    by (metis takeWhile_eq_take take_all order_refl)
  with length_takeWhile_le [of ?P ?xs] have lt: "length (takeWhile ?P ?xs) < length ?xs"
    by linarith
  then have "\<not> ?P (?xs ! length (takeWhile ?P ?xs))"
    by (rule nth_length_takeWhile)
  moreover have "?P i" if "i < length (takeWhile ?P ?xs)" for i
  proof -
    have "takeWhile ?P ?xs ! i = ?xs ! i" using that by (rule takeWhile_nth)
    moreover have "?P (takeWhile ?P ?xs ! i)"
      using that by (meson nth_mem set_takeWhileD)
    moreover have "i < length ?xs" using that lt by simp
    ultimately show ?thesis by simp
  qed
  ultimately show ?thesis using lt by (simp add: pushed_def)
qed

lemma cycleValid_iff:
  "cycleValid fset sh \<longleftrightarrow>
     (\<forall>i<length sh. isValidPair (sh ! i) (sh ! ((i + 1) mod length sh)) fset)"
  by (auto simp: cycleValid_def list_all_iff validAt_def)

lemma firstValid_Some:
  assumes "a < maxAttempts" "attemptValid random fset ps k a"
    "\<forall>b<a. \<not> attemptValid random fset ps k b"
  shows "firstValid random fset ps k = Some a"
  unfolding firstValid_def find_Some_iff
  using assms by (intro exI [of _ a]) simp

lemma firstValid_None:
  assumes "\<forall>a<maxAttempts. \<not> attemptValid random fset ps k a"
  shows "firstValid random fset ps k = None"
  unfolding firstValid_def find_None_iff using assms by simp

text \<open>
  Claim C9. For a group of two or more, \<^verbatim>\<open>shuffleAndPair\<close> makes at most 100 attempts.
  Attempt \<open>a\<close> shuffles a copy of the group (after \<open>a * (length - 1)\<close> draws of the
  earlier attempts), pairs index \<open>i\<close> with index \<open>(i + 1) mod length\<close>, and stops at the
  first pair that \<^verbatim>\<open>isValidPair\<close> rejects: a failed attempt has looked at the clock once
  for each pair before that one. The result is the cycle of the first attempt whose pairs
  are all valid; when none of the 100 attempts is, the error that carries the length of
  the group is thrown.
\<close>

theorem shuffleAndPair_attempts:
  assumes "2 \<le> length participants"
  shows
    "maxAttempts = 100 \<and>
     (\<forall>a. a < maxAttempts \<and> attemptValid random fset participants k a \<and>
          (\<forall>b<a. \<not> attemptValid random fset participants k b) \<longrightarrow>
        shuffleAndPair random now participants fset k d =
          Inr (cyclePairs now
                 (shuffleOf random participants (k + a * (length participants - 1)))
                 (clockAfter random fset participants k d a),
               k + (a + 1) * (length participants - 1),
               clockAfter random fset participants k d a + length participants)) \<and>
     ((\<forall>a<maxAttempts. \<not> attemptValid random fset participants k a) \<longrightarrow>
        shuffleAndPair random now participants fset k d
          = Inl (NoValidPairs (length participants))) \<and>
     (\<forall>a. attemptValid random fset participants k a \<longleftrightarrow>
          cycleValid fset (shuffleOf random participants (k + a * (length participants - 1)))) \<and>
     (\<forall>sh. cycleValid fset sh \<longleftrightarrow>
          (\<forall>i<length sh. isValidPair (sh ! i) (sh ! ((i + 1) mod length sh)) fset)) \<and>
     (\<forall>a. mset (shuffleOf random participants (k + a * (length participants - 1)))
            = mset participants) \<and>
     (\<forall>sh d0. cycleLoop now fset sh 0 d0 [] =
        (if cycleValid fset sh then (Some (cyclePairs now sh d0), d0 + length sh)
         else (None, d0 + pushed fset sh))) \<and>
     (\<forall>sh. \<not> cycleValid fset sh \<longrightarrow>
        pushed fset sh < length sh \<and>
        \<not> isValidPair (sh ! pushed fset sh) (sh ! ((pushed fset sh + 1) mod length sh)) fset \<and>
        (\<forall>i<pushed fset sh. isValidPair (sh ! i) (sh ! ((i + 1) mod length sh)) fset)) \<and>
     (\<forall>sh d0 i. i < length sh \<longrightarrow>
        cyclePairs now sh d0 ! i =
          \<lparr>giver = name (sh ! i), giverType = type (sh ! i),
           receiver = name (sh ! ((i + 1) mod length sh)),
           receiverType = type (sh ! ((i + 1) mod length sh)),
           createdAt = now (d0 + i)\<rparr>) \<and>
     (\<forall>sh d0. length (cyclePairs now sh d0) = length sh)"
proof -
  have c1: "maxAttempts = 100" by (simp add: maxAttempts_def)
  have c2: "\<forall>a. a < maxAttempts \<and> attemptValid random fset participants k a \<and>
          (\<forall>b<a. \<not> attemptValid random fset participants k b) \<longrightarrow>
        shuffleAndPair random now participants fset k d =
          Inr (cyclePairs now
                 (shuffleOf random participants (k + a * (length participants - 1)))
                 (clockAfter random fset participants k d a),
               k + (a + 1) * (length participants - 1),
               clockAfter random fset participants k d a + length participants)"
  proof (intro allI impI)
    fix a
    assume "a < maxAttempts \<and> attemptValid random fset participants k a \<and>
          (\<forall>b<a. \<not> attemptValid random fset participants k b)"
    then have "firstValid random fset participants k = Some a"
      by (simp add: firstValid_Some)
    then show "shuffleAndPair random now participants fset k d =
          Inr (cyclePairs now
                 (shuffleOf random participants (k + a * (length participants - 1)))
                 (clockAfter random fset participants k d a),
               k + (a + 1) * (length participants - 1),
               clockAfter random fset participants k d a + length participants)"
      using assms by (auto simp: shuffleAndPair_char)
  qed
  have c3: "(\<forall>a<maxAttempts. \<not> attemptValid random fset participants k a) \<longrightarrow>
        shuffleAndPair random now participants fset k d
          = Inl (NoValidPairs (length participants))"
  proof
    assume "\<forall>a<maxAttempts. \<not> attemptValid random fset participants k a"
    then have "firstValid random fset participants k = None" by (rule firstValid_None)
    then show "shuffleAndPair random now participants fset k d
          = Inl (NoValidPairs (length participants))"
      using assms by (auto simp: shuffleAndPair_char)
  qed
  have c4: "\<forall>a. attemptValid random fset participants k a \<longleftrightarrow>
          cycleValid fset (shuffleOf random participants (k + a * (length participants - 1)))"
    by (simp add: attemptValid_def)
  have c4': "\<forall>sh. cycleValid fset sh \<longleftrightarrow>
          (\<forall>i<length sh. isValidPair (sh ! i) (sh ! ((i + 1) mod length sh)) fset)"
    using cycleValid_iff by blast
  have c5: "\<forall>a. mset (shuffleOf random participants (k + a * (length participants - 1)))
            = mset participants"
    by (simp add: shuffleOf_mset)
  have c6: "\<forall>sh d0. cycleLoop now fset sh 0 d0 [] =
        (if cycleValid fset sh then (Some (cyclePairs now sh d0), d0 + length sh)
         else (None, d0 + pushed fset sh))"
    by (simp only: cycleLoop_char) simp
  have c7: "\<forall>sh. \<not> cycleValid fset sh \<longrightarrow>
        pushed fset sh < length sh \<and>
        \<not> isValidPair (sh ! pushed fset sh) (sh ! ((pushed fset sh + 1) mod length sh)) fset \<and>
        (\<forall>i<pushed fset sh. isValidPair (sh ! i) (sh ! ((i + 1) mod length sh)) fset)"
    using pushed_first_invalid by (simp add: validAt_def)
  have c8: "\<forall>sh d0 i. i < length sh \<longrightarrow>
        cyclePairs now sh d0 ! i =
          \<lparr>giver = name (sh ! i), giverType = type (sh ! i),
           receiver = name (sh ! ((i + 1) mod length sh)),
           receiverType = type (sh ! ((i + 1) mod length sh)),
           createdAt = now (d0 + i)\<rparr>"
    by (simp add: cyclePairs_def pairAt_def)
  have c9: "\<forall>sh d0. length (cyclePairs now sh d0) = length sh"
    by (simp add: cyclePairs_def)
  show ?thesis by (intro conjI c1 c2 c3 c4 c4' c5 c6 c7 c8 c9)
qed

theorem shuffleAndPair_attempts_witness:
  "shuffleAndPair (\<lambda>k. [3, 1, 0, 3, 1, 1] ! k) (\<lambda>d. [''t0'', ''t1'', ''t2'', ''t3'', ''t4''] ! d)
     [\<lparr>name = ''A'', type = normal\<rparr>, \<lparr>name = ''B'', type = normal\<rparr>,
      \<lparr>name = ''C'', type = normal\<rparr>, \<lparr>name = ''D'', type = normal\<rparr>]
     (Some (forbiddenSet [(''A'', ''B'')])) 0 0 =
     Inr ([\<lparr>giver = ''A'', giverType = normal, receiver = ''C'', receiverType = normal,
             createdAt = ''t1''\<rparr>,
           \<lparr>giver = ''C'', giverType = normal, receiver = ''B'', receiverType = normal,
             createdAt = ''t2''\<rparr>,
           \<lparr>giver = ''B'', giverType = normal, receiver = ''D'', receiverType = normal,
             createdAt = ''t3''\<rparr>,
           \<lparr>giver = ''D'', giverType = normal, receiver = ''A'', receiverType = normal,
             createdAt = ''t4''\<rparr>], 6, 5) \<and>
   shuffleAndPair (\<lambda>k. 0) (\<lambda>d. ''t'')
     [\<lparr>name = ''A'', type = normal\<rparr>, \<lparr>name = ''B'', type = normal\<rparr>,
      \<lparr>name = ''C'', type = normal\<rparr>, \<lparr>name = ''D'', type = normal\<rparr>]
     (Some (forbiddenSet [(''A'', ''B'')])) 0 0 = Inl (NoValidPairs 4)"
proof -
  let ?P = "[\<lparr>name = ''A'', type = normal\<rparr>, \<lparr>name = ''B'', type = normal\<rparr>,
      \<lparr>name = ''C'', type = normal\<rparr>, \<lparr>name = ''D'', type = normal\<rparr>]"
  let ?F = "Some (forbiddenSet [(''A'', ''B'')])"
  let ?R = "\<lambda>k. [3, 1, 0, 3, 1, 1] ! k"
  let ?now = "\<lambda>d. [''t0'', ''t1'', ''t2'', ''t3'', ''t4''] ! d"
  have len: "2 \<le> length ?P" by simp
  have e1: "0 + 1 * (length ?P - 1) = 3" by simp
  have e2: "0 + (1 + 1) * (length ?P - 1) = 6" by simp
  have s0: "shuffleOf ?R ?P 0 = [\<lparr>name = ''C'', type = normal\<rparr>, \<lparr>name = ''A'', type = normal\<rparr>,
      \<lparr>name = ''B'', type = normal\<rparr>, \<lparr>name = ''D'', type = normal\<rparr>]"
    by code_simp
  have s1: "shuffleOf ?R ?P 3 = [\<lparr>name = ''A'', type = normal\<rparr>, \<lparr>name = ''C'', type = normal\<rparr>,
      \<lparr>name = ''B'', type = normal\<rparr>, \<lparr>name = ''D'', type = normal\<rparr>]"
    by code_simp
  have v0: "\<not> attemptValid ?R ?F ?P 0 0" by code_simp
  have v1: "attemptValid ?R ?F ?P 0 1" by code_simp
  have first: "1 < maxAttempts \<and> attemptValid ?R ?F ?P 0 1 \<and> (\<forall>b<1. \<not> attemptValid ?R ?F ?P 0 b)"
    using v0 v1 by (simp add: maxAttempts_def)
  have c: "clockAfter ?R ?F ?P 0 0 1 = 1"
    by code_simp
  have cp: "cyclePairs ?now [\<lparr>name = ''A'', type = normal\<rparr>, \<lparr>name = ''C'', type = normal\<rparr>,
      \<lparr>name = ''B'', type = normal\<rparr>, \<lparr>name = ''D'', type = normal\<rparr>] 1 =
      [\<lparr>giver = ''A'', giverType = normal, receiver = ''C'', receiverType = normal,
             createdAt = ''t1''\<rparr>,
           \<lparr>giver = ''C'', giverType = normal, receiver = ''B'', receiverType = normal,
             createdAt = ''t2''\<rparr>,
           \<lparr>giver = ''B'', giverType = normal, receiver = ''D'', receiverType = normal,
             createdAt = ''t3''\<rparr>,
           \<lparr>giver = ''D'', giverType = normal, receiver = ''A'', receiverType = normal,
             createdAt = ''t4''\<rparr>]"
    by code_simp
  have sh0: "shuffleOf (\<lambda>k. 0) ?P k = [\<lparr>name = ''B'', type = normal\<rparr>, \<lparr>name = ''C'', type = normal\<rparr>,
      \<lparr>name = ''D'', type = normal\<rparr>, \<lparr>name = ''A'', type = normal\<rparr>]" for k
    by (simp add: shuffleOf_def numeral_3_eq_3)
  have "\<not> cycleValid ?F [\<lparr>name = ''B'', type = normal\<rparr>, \<lparr>name = ''C'', type = normal\<rparr>,
      \<lparr>name = ''D'', type = normal\<rparr>, \<lparr>name = ''A'', type = normal\<rparr>]"
    by code_simp
  then have none: "\<forall>a<maxAttempts. \<not> attemptValid (\<lambda>k. 0) ?F ?P 0 a"
    by (simp only: attemptValid_def sh0) simp
  have "shuffleAndPair ?R ?now ?P ?F 0 0 =
          Inr (cyclePairs ?now (shuffleOf ?R ?P (0 + 1 * (length ?P - 1)))
                 (clockAfter ?R ?F ?P 0 0 1),
               0 + (1 + 1) * (length ?P - 1),
               clockAfter ?R ?F ?P 0 0 1 + length ?P)"
    by (rule shuffleAndPair_attempts [OF len, THEN conjunct2, THEN conjunct1, rule_format,
          OF first])
  then have a: "shuffleAndPair ?R ?now ?P ?F 0 0 =
     Inr ([\<lparr>giver = ''A'', giverType = normal, receiver = ''C'', receiverType = normal,
             createdAt = ''t1''\<rparr>,
           \<lparr>giver = ''C'', giverType = normal, receiver = ''B'', receiverType = normal,
             createdAt = ''t2''\<rparr>,
           \<lparr>giver = ''B'', giverType = normal, receiver = ''D'', receiverType = normal,
             createdAt = ''t3''\<rparr>,
           \<lparr>giver = ''D'', giverType = normal, receiver = ''A'', receiverType = normal,
             createdAt = ''t4''\<rparr>], 6, 5)"
    by (simp only: e1 e2 s1 c cp) simp
  have b: "shuffleAndPair (\<lambda>k. 0) (\<lambda>d. ''t'') ?P ?F 0 0 = Inl (NoValidPairs (length ?P))"
    by (rule shuffleAndPair_attempts [OF len, THEN conjunct2, THEN conjunct2, THEN conjunct1,
          THEN mp, OF none])
  from a b show ?thesis by simp
qed

subsection \<open>C10: the same draws give the same assignments\<close>

lemma assignment_renumber:
  "map assignment (renumber prs) =
     map (\<lambda>i. (name (map giverOf prs ! i), type (map giverOf prs ! i),
               name (map receiverOf prs ! i), type (map receiverOf prs ! i), Suc i))
       [0..<length prs]"
  by (rule nth_equalityI)
     (simp_all add: renumber_def assignment_def withId_def giverOf_def receiverOf_def
        pair.defs finalPair.defs)

lemma assignment_renumber_cong:
  assumes "map giverOf prs1 = map giverOf prs2" "map receiverOf prs1 = map receiverOf prs2"
  shows "map assignment (renumber prs1) = map assignment (renumber prs2)"
proof -
  from assms(1) have "length prs1 = length prs2" by (rule map_eq_imp_length_eq)
  with assms show ?thesis by (simp add: assignment_renumber)
qed

lemma shuffleAndPair_two_clocks:
  "(\<exists>e. shuffleAndPair random now1 ps fset k d = Inl e \<and>
        shuffleAndPair random now2 ps fset k d = Inl e) \<or>
   (\<exists>sh d0 k' d'.
        shuffleAndPair random now1 ps fset k d = Inr (cyclePairs now1 sh d0, k', d') \<and>
        shuffleAndPair random now2 ps fset k d = Inr (cyclePairs now2 sh d0, k', d'))"
proof (cases "ps = []")
  case True
  then have "shuffleAndPair random now1 ps fset k d = Inr (cyclePairs now1 [] 0, k, d) \<and>
        shuffleAndPair random now2 ps fset k d = Inr (cyclePairs now2 [] 0, k, d)"
    by (simp add: shuffleAndPair_def cyclePairs_def)
  then show ?thesis by blast
next
  case False
  show ?thesis
  proof (cases "length ps = 1")
    case True
    then show ?thesis by (simp add: shuffleAndPair_def)
  next
    case n: False
    show ?thesis
    proof (cases "firstValid random fset ps k")
      case None
      with False n show ?thesis by (simp add: shuffleAndPair_char)
    next
      case (Some a)
      with False n show ?thesis by (simp add: shuffleAndPair_char) blast
    qed
  qed
qed

text \<open>
  Claim C10. Two runs of \<^verbatim>\<open>makePairs\<close> on the same lists that see the same sequence of
  draws produce the same assignments in the same order (givers, receivers, categories and
  ids), or throw the same error, whatever the two clocks show: the time stamps are the
  only part of the pairs that the draws and the input do not fix.
\<close>

theorem same_draws_same_assignments:
  "assignmentSequence (makePairs random now1 ns nb ls fp) =
   assignmentSequence (makePairs random now2 ns nb ls fp)"
proof (cases "nb \<noteq> [] \<and> 2 \<le> length ns + length nb + length ls")
  case False
  then consider "length ns + length nb + length ls = 0" | "length ns + length nb + length ls = 1"
    | "nb = []" "2 \<le> length ns + length nb + length ls"
    by linarith
  then show ?thesis
  proof cases
    case 1
    then show ?thesis by (simp add: makePairs_def)
  next
    case 2
    then show ?thesis by (simp add: makePairs_def Let_def)
  next
    case 3
    then show ?thesis by (simp add: makePairs_no_newbies)
  qed
next
  case True
  then have nb: "nb \<noteq> []" and two: "2 \<le> length ns + length nb + length ls" by simp_all
  let ?npd = "makeNewbieParticipants random nb ls 0"
  let ?fset = "Some (forbiddenSet fp)"
  let ?A = "newbieAndLeaders (fst ?npd)"
  let ?B = "normalParticipants ns (remainLeaders (fst ?npd))"
  from shuffleAndPair_two_clocks [of random now1 ?A ?fset "snd ?npd" 0 now2]
  show ?thesis
  proof (elim disjE exE conjE)
    fix e
    assume "shuffleAndPair random now1 ?A ?fset (snd ?npd) 0 = Inl e"
      "shuffleAndPair random now2 ?A ?fset (snd ?npd) 0 = Inl e"
    then show ?thesis
      by (simp add: makePairs_unfold [OF nb two] Let_def assignmentSequence_def)
  next
    fix shA dA k1 d1
    assume A1: "shuffleAndPair random now1 ?A ?fset (snd ?npd) 0
                  = Inr (cyclePairs now1 shA dA, k1, d1)"
      and A2: "shuffleAndPair random now2 ?A ?fset (snd ?npd) 0
                  = Inr (cyclePairs now2 shA dA, k1, d1)"
    from shuffleAndPair_two_clocks [of random now1 ?B ?fset k1 d1 now2]
    show ?thesis
    proof (elim disjE exE conjE)
      fix e
      assume "shuffleAndPair random now1 ?B ?fset k1 d1 = Inl e"
        "shuffleAndPair random now2 ?B ?fset k1 d1 = Inl e"
      with A1 A2 show ?thesis
        by (simp add: makePairs_unfold [OF nb two] Let_def assignmentSequence_def)
    next
      fix shB dB k2 d2
      assume B1: "shuffleAndPair random now1 ?B ?fset k1 d1
                    = Inr (cyclePairs now1 shB dB, k2, d2)"
        and B2: "shuffleAndPair random now2 ?B ?fset k1 d1
                    = Inr (cyclePairs now2 shB dB, k2, d2)"
      have "map assignment (renumber (cyclePairs now1 shA dA @ cyclePairs now1 shB dB)) =
            map assignment (renumber (cyclePairs now2 shA dA @ cyclePairs now2 shB dB))"
        by (rule assignment_renumber_cong)
           (simp_all add: giverOf_cyclePairs receiverOf_cyclePairs)
      with A1 A2 B1 B2 show ?thesis
        by (simp add: makePairs_unfold [OF nb two] Let_def assignmentSequence_def)
    qed
  qed
qed

theorem same_draws_same_assignments_witness:
  "assignmentSequence
     (makePairs exampleRandom (\<lambda>d. ''t'') [''A'', ''B'', ''C'', ''D''] [''N''] [''L'']
        [(''A'', ''B'')]) =
     Inr [(''L'', leader, ''N'', newbie, 1), (''N'', newbie, ''L'', leader, 2),
          (''A'', normal, ''C'', normal, 3), (''C'', normal, ''B'', normal, 4),
          (''B'', normal, ''D'', normal, 5), (''D'', normal, ''A'', normal, 6)] \<and>
   assignmentSequence
     (makePairs exampleRandom (\<lambda>d. replicate d CHR ''x'') [''A'', ''B'', ''C'', ''D''] [''N'']
        [''L''] [(''A'', ''B'')]) =
     Inr [(''L'', leader, ''N'', newbie, 1), (''N'', newbie, ''L'', leader, 2),
          (''A'', normal, ''C'', normal, 3), (''C'', normal, ''B'', normal, 4),
          (''B'', normal, ''D'', normal, 5), (''D'', normal, ''A'', normal, 6)]"
proof -
  have "assignmentSequence
     (makePairs exampleRandom (\<lambda>d. ''t'') [''A'', ''B'', ''C'', ''D''] [''N''] [''L'']
        [(''A'', ''B'')]) =
     Inr [(''L'', leader, ''N'', newbie, 1), (''N'', newbie, ''L'', leader, 2),
          (''A'', normal, ''C'', normal, 3), (''C'', normal, ''B'', normal, 4),
          (''B'', normal, ''D'', normal, 5), (''D'', normal, ''A'', normal, 6)]"
    by (simp add: example_run assignmentSequence_def exampleResult_def assignment_def)
  then show ?thesis
    using same_draws_same_assignments [of exampleRandom "\<lambda>d. ''t''"
        "[''A'', ''B'', ''C'', ''D'']" "[''N'']" "[''L'']" "[(''A'', ''B'')]"
        "\<lambda>d. replicate d CHR ''x''"]
    by simp
qed

subsection \<open>C8: the two groups\<close>

lemma fisherYates_cong:
  "(\<And>t. t < i \<Longrightarrow> r1 (k + t) = r2 (k + t)) \<Longrightarrow> fisherYates r1 i k a = fisherYates r2 i k a"
proof (induction i arbitrary: k a)
  case 0
  show ?case by simp
next
  case (Suc i)
  have k: "r1 k = r2 k" using Suc.prems [of 0] by simp
  let ?b = "a[Suc i := a ! (r2 k mod (Suc i + 1)), r2 k mod (Suc i + 1) := a ! Suc i]"
  have "fisherYates r1 i (Suc k) ?b = fisherYates r2 i (Suc k) ?b"
  proof (rule Suc.IH)
    fix t assume "t < i"
    then show "r1 (Suc k + t) = r2 (Suc k + t)" using Suc.prems [of "Suc t"] by simp
  qed
  then show ?case by (simp add: Let_def k)
qed

lemma fisherYates_above:
  "i < p \<Longrightarrow> p < length a \<Longrightarrow> fst (fisherYates r i k a) ! p = a ! p"
proof (induction i arbitrary: k a)
  case 0
  show ?case by simp
next
  case (Suc i)
  let ?j = "r k mod (Suc i + 1)"
  have j: "?j < Suc i + 1" by (rule mod_less_divisor) simp
  let ?a = "a[Suc i := a ! ?j, ?j := a ! Suc i]"
  have "fst (fisherYates r i (Suc k) ?a) ! p = ?a ! p"
    using Suc.prems by (intro Suc.IH) simp_all
  also have "?a ! p = a ! p"
  proof -
    have "?j \<noteq> p" "Suc i \<noteq> p" using Suc.prems j by linarith+
    then show ?thesis by simp
  qed
  finally show ?case by (simp add: Let_def)
qed

lemma fisherYates_top:
  assumes "Suc i < length a"
  shows "fst (fisherYates r (Suc i) k a) ! Suc i = a ! (r k mod (Suc i + 1))"
proof -
  let ?j = "r k mod (Suc i + 1)"
  have j: "?j < Suc i + 1" by (rule mod_less_divisor) simp
  let ?a = "a[Suc i := a ! ?j, ?j := a ! Suc i]"
  have "fst (fisherYates r i (Suc k) ?a) ! Suc i = ?a ! Suc i"
    using assms by (intro fisherYates_above) simp_all
  also have "?a ! Suc i = a ! ?j"
    using assms j by (cases "?j = Suc i") simp_all
  finally show ?thesis by (simp add: Let_def)
qed

lemma fisherYates_inj:
  assumes "distinct a" "i < length a"
    "fst (fisherYates r1 i k a) = fst (fisherYates r2 i k a)"
    "t < i"
  shows "r1 (k + t) mod (i + 1 - t) = r2 (k + t) mod (i + 1 - t)"
  using assms
proof (induction i arbitrary: k a t)
  case 0
  then show ?case by simp
next
  case (Suc i)
  let ?j1 = "r1 k mod (Suc i + 1)"
  let ?j2 = "r2 k mod (Suc i + 1)"
  have j1: "?j1 < Suc i + 1" and j2: "?j2 < Suc i + 1" by (rule mod_less_divisor, simp)+
  have "a ! ?j1 = a ! ?j2"
    using fisherYates_top [OF Suc.prems(2), of r1 k] fisherYates_top [OF Suc.prems(2), of r2 k]
      Suc.prems(3) by simp
  moreover have jl: "?j1 < length a" "?j2 < length a" using Suc.prems(2) j1 j2 by linarith+
  ultimately have eq: "?j1 = ?j2"
    using Suc.prems(1) by (simp only: nth_eq_iff_index_eq)
  show ?case
  proof (cases t)
    case 0
    with eq show ?thesis by simp
  next
    case (Suc t')
    let ?a = "a[Suc i := a ! ?j1, ?j1 := a ! Suc i]"
    have "mset ?a = mset a" using jl(1) Suc.prems(2) by (rule mset_swap)
    with Suc.prems(1) have d: "distinct ?a" by (metis mset_eq_imp_distinct_iff)
    have l: "i < length ?a" using Suc.prems(2) by simp
    have e: "fst (fisherYates r1 i (Suc k) ?a) = fst (fisherYates r2 i (Suc k) ?a)"
      using Suc.prems(3) eq by (simp add: Let_def)
    have "t' < i" using Suc.prems(4) Suc by simp
    from Suc.IH [OF d l e this] show ?thesis using Suc by simp
  qed
qed

lemma fisherYates_surj:
  assumes "mset ys = mset a" "\<And>p. i < p \<Longrightarrow> p < length a \<Longrightarrow> ys ! p = a ! p"
    "i < length a \<or> i = 0"
  shows "\<exists>r. fst (fisherYates r i k a) = ys"
  using assms
proof (induction i arbitrary: k a)
  case 0
  have len: "length ys = length a" using "0.prems"(1) by (rule mset_eq_length)
  have "ys = a"
  proof (cases a)
    case Nil
    with len show ?thesis by simp
  next
    case (Cons x a')
    with len obtain y ys' where ys: "ys = y # ys'" by (cases ys) auto
    have "ys' = a'"
    proof (rule nth_equalityI)
      show "length ys' = length a'" using len ys Cons by simp
      fix p assume "p < length ys'"
      then show "ys' ! p = a' ! p" using "0.prems"(2) [of "Suc p"] ys Cons len by simp
    qed
    with "0.prems"(1) ys Cons show ?thesis by simp
  qed
  then show ?case by simp
next
  case (Suc i)
  from Suc.prems(3) have i: "Suc i < length a" by simp
  have len: "length ys = length a" using Suc.prems(1) by (rule mset_eq_length)
  let ?n = "Suc (Suc i)"
  have "drop ?n ys = drop ?n a"
  proof (rule nth_equalityI)
    show "length (drop ?n ys) = length (drop ?n a)" using len by simp
    fix p assume "p < length (drop ?n ys)"
    then show "drop ?n ys ! p = drop ?n a ! p"
      using Suc.prems(2) [of "?n + p"] len by simp
  qed
  moreover have "mset (take ?n ys) + mset (drop ?n ys) = mset (take ?n a) + mset (drop ?n a)"
    using Suc.prems(1) by (metis append_take_drop_id mset_append)
  ultimately have "mset (take ?n ys) = mset (take ?n a)" by simp
  then have "set (take ?n ys) = set (take ?n a)" by (rule mset_eq_setD)
  moreover have "ys ! Suc i \<in> set (take ?n ys)"
    using i len by (metis lessI nth_take nth_mem length_take min.absorb2 Suc_leI)
  ultimately have "ys ! Suc i \<in> set (take ?n a)" by simp
  then obtain j where j: "j < ?n" "a ! j = ys ! Suc i"
    using i by (auto simp: in_set_conv_nth)
  let ?a = "a[Suc i := a ! j, j := a ! Suc i]"
  have m: "mset ys = mset ?a"
    using Suc.prems(1) j(1) i by (simp add: mset_swap)
  have agree: "ys ! p = ?a ! p" if "i < p" "p < length ?a" for p
  proof (cases "p = Suc i")
    case True
    then show ?thesis using j i by (cases "j = Suc i") simp_all
  next
    case False
    with that have "Suc i < p" by simp
    then show ?thesis using Suc.prems(2) [of p] that j(1) by simp
  qed
  have "i < length ?a \<or> i = 0" using i by simp
  from Suc.IH [OF m agree this, of "Suc k"] obtain r' where
    r': "fst (fisherYates r' i (Suc k) ?a) = ys" by blast
  let ?r = "r'(k := j)"
  have "fisherYates ?r i (Suc k) ?a = fisherYates r' i (Suc k) ?a"
    by (rule fisherYates_cong) simp
  moreover have "?r k mod (Suc i + 1) = j" using j(1) by simp
  ultimately have "fst (fisherYates ?r (Suc i) k a) = ys"
    using r' by (simp add: Let_def)
  then show ?case by blast
qed

lemma asType_inj: "map (asType t) xs = map (asType t) ys \<Longrightarrow> xs = ys"
proof -
  assume "map (asType t) xs = map (asType t) ys"
  then have "map name (map (asType t) xs) = map name (map (asType t) ys)" by simp
  then show "xs = ys" by (simp add: asType_def comp_def)
qed

lemma shuffle_reachable:
  assumes "mset ys = mset a"
  shows "\<exists>r. fst (fisherYates r (length a - 1) k a) = ys"
proof (rule fisherYates_surj [OF assms])
  fix p assume "length a - 1 < p" "p < length a"
  then show "ys ! p = a ! p" by linarith
next
  show "length a - 1 < length a \<or> length a - 1 = 0" by linarith
qed

lemma selection_reachable:
  assumes "length nb < length ls" "length selected = length nb"
    "mset (selected @ remain) = mset ls" "nb \<noteq> []"
  shows "\<exists>r. makeNewbieParticipants r nb ls k =
           (Groups (map (asType newbie) nb @ map (asType leader) selected) remain,
            k + (length ls - 1))"
proof -
  from shuffle_reachable [OF assms(3), of k] obtain r where
    r: "fst (fisherYates r (length ls - 1) k ls) = selected @ remain" by blast
  have "makeNewbieParticipants r nb ls k =
           (Groups (map (asType newbie) nb @ map (asType leader) selected) remain,
            k + (length ls - 1))"
    using assms(1,2,4) r
    by (simp add: makeNewbieParticipants_def Let_def fisherYates_snd)
  then show ?thesis by blast
qed

lemma selection_draws:
  assumes "nb \<noteq> []" "length nb < length ls" "distinct ls"
    "fst (makeNewbieParticipants r1 nb ls k) = fst (makeNewbieParticipants r2 nb ls k)"
    "t < length ls - 1"
  shows "r1 (k + t) mod (length ls - t) = r2 (k + t) mod (length ls - t)"
proof -
  let ?s1 = "fst (fisherYates r1 (length ls - 1) k ls)"
  let ?s2 = "fst (fisherYates r2 (length ls - 1) k ls)"
  from assms(1,2,4) have
    m: "map (asType leader) (take (length nb) ?s1) = map (asType leader) (take (length nb) ?s2)"
    and d: "drop (length nb) ?s1 = drop (length nb) ?s2"
    by (simp_all add: makeNewbieParticipants_def Let_def)
  from m have "take (length nb) ?s1 = take (length nb) ?s2" by (rule asType_inj)
  with d have "?s1 = ?s2" by (metis append_take_drop_id)
  moreover have "length ls - 1 < length ls" using assms(2) by linarith
  ultimately have "r1 (k + t) mod (length ls - 1 + 1 - t) = r2 (k + t) mod (length ls - 1 + 1 - t)"
    using assms(3,5) by (intro fisherYates_inj [of ls "length ls - 1"]) simp_all
  moreover have "length ls - 1 + 1 - t = length ls - t" using assms(2) by linarith
  ultimately show ?thesis by simp
qed

text \<open>
  Claim C8. With at least one newbie: when there are no more leaders than newbies, the
  first group is all newbies and all leaders and the second group is the normal members;
  when there are more leaders than newbies, as many leaders as there are newbies join the
  newbies, and the remaining leaders join the normal members, the selected and the
  remaining leaders being together the leaders of the input. In both cases the two groups
  together are the population, each participant in exactly one of them, and they are the
  two groups that \<^verbatim>\<open>makePairs\<close> matches. The selection is by a Fisher-Yates shuffle of the
  leaders: every selection with every remainder (in every order) is the outcome of some
  draws, and for distinct leaders two sequences of draws with the same outcome agree at
  every draw (reduced to its range), so that each arrangement of the leaders comes from
  exactly one sequence of reduced draws.
\<close>

theorem partition_groups:
  assumes "nb \<noteq> []"
  shows
    "(length ls \<le> length nb \<longrightarrow>
        makeNewbieParticipants random nb ls k =
          (Groups (map (asType newbie) nb @ map (asType leader) ls) [], k) \<and>
        normalParticipants ns [] = map (asType normal) ns) \<and>
     (length nb < length ls \<longrightarrow>
        (\<exists>selected remain.
           makeNewbieParticipants random nb ls k =
             (Groups (map (asType newbie) nb @ map (asType leader) selected) remain,
              k + (length ls - 1)) \<and>
           length selected = length nb \<and>
           mset selected + mset remain = mset ls \<and>
           normalParticipants ns remain
             = map (asType normal) ns @ map (asType leader) remain)) \<and>
     mset (newbieAndLeaders (fst (makeNewbieParticipants random nb ls k))) +
       mset (normalParticipants ns (remainLeaders (fst (makeNewbieParticipants random nb ls k))))
       = mset (allParticipants ns nb ls) \<and>
     (2 \<le> length ns + length nb + length ls \<longrightarrow>
        makePairs random now ns nb ls fp =
          (let npd = makeNewbieParticipants random nb ls 0;
               fset = Some (forbiddenSet fp)
           in case shuffleAndPair random now (newbieAndLeaders (fst npd)) fset (snd npd) 0 of
                Inl e \<Rightarrow> Inl e
              | Inr (ps1, k1, d1) \<Rightarrow>
                 (case shuffleAndPair random now
                         (normalParticipants ns (remainLeaders (fst npd))) fset k1 d1 of
                    Inl e \<Rightarrow> Inl e
                  | Inr (ps2, k2, d2) \<Rightarrow>
                      Inr \<lparr>pairs = renumber (ps1 @ ps2),
                           metadata = Full
                             \<lparr>totalParticipants = length ns + length nb + length ls,
                              usedParticipants = length ns + length nb + length ls,
                              excludedParticipants = 0,
                              excluded = [],
                              forbiddenPairs = length fp,
                              generatedAt = now d2,
                              rules = rulesText\<rparr>\<rparr>))) \<and>
     (\<forall>selected remain.
        length nb < length ls \<and> length selected = length nb \<and>
        mset (selected @ remain) = mset ls \<longrightarrow>
        (\<exists>r. makeNewbieParticipants r nb ls k =
           (Groups (map (asType newbie) nb @ map (asType leader) selected) remain,
            k + (length ls - 1)))) \<and>
     (\<forall>r1 r2 t.
        length nb < length ls \<and> distinct ls \<and>
        fst (makeNewbieParticipants r1 nb ls k) = fst (makeNewbieParticipants r2 nb ls k) \<and>
        t < length ls - 1 \<longrightarrow>
        r1 (k + t) mod (length ls - t) = r2 (k + t) mod (length ls - t))"
proof -
  have c1: "length ls \<le> length nb \<longrightarrow>
        makeNewbieParticipants random nb ls k =
          (Groups (map (asType newbie) nb @ map (asType leader) ls) [], k) \<and>
        normalParticipants ns [] = map (asType normal) ns"
    using assms by (simp add: makeNewbieParticipants_def normalParticipants_def)
  have c2: "length nb < length ls \<longrightarrow>
        (\<exists>selected remain.
           makeNewbieParticipants random nb ls k =
             (Groups (map (asType newbie) nb @ map (asType leader) selected) remain,
              k + (length ls - 1)) \<and>
           length selected = length nb \<and>
           mset selected + mset remain = mset ls \<and>
           normalParticipants ns remain
             = map (asType normal) ns @ map (asType leader) remain)"
  proof
    assume lt: "length nb < length ls"
    let ?sh = "fst (fisherYates random (length ls - 1) k ls)"
    have m: "mset ?sh = mset ls" by (rule fisherYates_mset) (cases ls; simp)
    have "mset (take (length nb) ?sh) + mset (drop (length nb) ?sh) = mset ls"
      using m by (metis append_take_drop_id mset_append)
    moreover have "length (take (length nb) ?sh) = length nb"
      using lt by (simp add: fisherYates_length)
    moreover have "makeNewbieParticipants random nb ls k =
             (Groups (map (asType newbie) nb @ map (asType leader) (take (length nb) ?sh))
                (drop (length nb) ?sh),
              k + (length ls - 1))"
      using assms lt by (simp add: makeNewbieParticipants_def Let_def fisherYates_snd)
    ultimately show "\<exists>selected remain.
           makeNewbieParticipants random nb ls k =
             (Groups (map (asType newbie) nb @ map (asType leader) selected) remain,
              k + (length ls - 1)) \<and>
           length selected = length nb \<and>
           mset selected + mset remain = mset ls \<and>
           normalParticipants ns remain
             = map (asType normal) ns @ map (asType leader) remain"
      by (intro exI [of _ "take (length nb) ?sh"] exI [of _ "drop (length nb) ?sh"])
         (simp add: normalParticipants_def)
  qed
  have c3: "mset (newbieAndLeaders (fst (makeNewbieParticipants random nb ls k))) +
       mset (normalParticipants ns (remainLeaders (fst (makeNewbieParticipants random nb ls k))))
       = mset (allParticipants ns nb ls)"
    by (rule groups_partition [OF assms])
  have c4: "2 \<le> length ns + length nb + length ls \<longrightarrow>
        makePairs random now ns nb ls fp =
          (let npd = makeNewbieParticipants random nb ls 0;
               fset = Some (forbiddenSet fp)
           in case shuffleAndPair random now (newbieAndLeaders (fst npd)) fset (snd npd) 0 of
                Inl e \<Rightarrow> Inl e
              | Inr (ps1, k1, d1) \<Rightarrow>
                 (case shuffleAndPair random now
                         (normalParticipants ns (remainLeaders (fst npd))) fset k1 d1 of
                    Inl e \<Rightarrow> Inl e
                  | Inr (ps2, k2, d2) \<Rightarrow>
                      Inr \<lparr>pairs = renumber (ps1 @ ps2),
                           metadata = Full
                             \<lparr>totalParticipants = length ns + length nb + length ls,
                              usedParticipants = length ns + length nb + length ls,
                              excludedParticipants = 0,
                              excluded = [],
                              forbiddenPairs = length fp,
                              generatedAt = now d2,
                              rules = rulesText\<rparr>\<rparr>))"
    using makePairs_unfold [OF assms] by blast
  have c5: "\<forall>selected remain.
        length nb < length ls \<and> length selected = length nb \<and>
        mset (selected @ remain) = mset ls \<longrightarrow>
        (\<exists>r. makeNewbieParticipants r nb ls k =
           (Groups (map (asType newbie) nb @ map (asType leader) selected) remain,
            k + (length ls - 1)))"
    using selection_reachable [OF _ _ _ assms] by blast
  have c6: "\<forall>r1 r2 t.
        length nb < length ls \<and> distinct ls \<and>
        fst (makeNewbieParticipants r1 nb ls k) = fst (makeNewbieParticipants r2 nb ls k) \<and>
        t < length ls - 1 \<longrightarrow>
        r1 (k + t) mod (length ls - t) = r2 (k + t) mod (length ls - t)"
    using selection_draws [OF assms] by blast
  show ?thesis by (intro conjI c1 c2 c3 c4 c5 c6)
qed

theorem partition_groups_witness:
  "makeNewbieParticipants (\<lambda>k. 0) [''N1'', ''N2''] [''L''] 0 =
     (Groups [\<lparr>name = ''N1'', type = newbie\<rparr>, \<lparr>name = ''N2'', type = newbie\<rparr>,
              \<lparr>name = ''L'', type = leader\<rparr>] [], 0) \<and>
   normalParticipants [''A''] [] = [\<lparr>name = ''A'', type = normal\<rparr>] \<and>
   makeNewbieParticipants (\<lambda>k. [1, 0] ! k) [''N''] [''L1'', ''L2'', ''L3''] 0 =
     (Groups [\<lparr>name = ''N'', type = newbie\<rparr>, \<lparr>name = ''L3'', type = leader\<rparr>]
        [''L1'', ''L2''], 2) \<and>
   mset [\<lparr>name = ''N'', type = newbie\<rparr>, \<lparr>name = ''L3'', type = leader\<rparr>] +
     mset (normalParticipants [''A''] [''L1'', ''L2''])
     = mset (allParticipants [''A''] [''N''] [''L1'', ''L2'', ''L3''])"
proof -
  have n1: "[''N1'', ''N2''] \<noteq> []" and n2: "[''N''] \<noteq> []" by simp_all
  have le: "length [''L''] \<le> length [''N1'', ''N2'']" by simp
  have a: "makeNewbieParticipants (\<lambda>k. 0) [''N1'', ''N2''] [''L''] 0 =
          (Groups (map (asType newbie) [''N1'', ''N2''] @ map (asType leader) [''L'']) [], 0) \<and>
        normalParticipants [''A''] [] = map (asType normal) [''A'']"
    by (rule partition_groups [OF n1, THEN conjunct1, THEN mp, OF le])
  have e: "makeNewbieParticipants (\<lambda>k. [1, 0] ! k) [''N''] [''L1'', ''L2'', ''L3''] 0 =
     (Groups [\<lparr>name = ''N'', type = newbie\<rparr>, \<lparr>name = ''L3'', type = leader\<rparr>]
        [''L1'', ''L2''], 2)"
    by code_simp
  have c: "mset (newbieAndLeaders
              (fst (makeNewbieParticipants (\<lambda>k. [1, 0] ! k) [''N''] [''L1'', ''L2'', ''L3''] 0))) +
       mset (normalParticipants [''A''] (remainLeaders
              (fst (makeNewbieParticipants (\<lambda>k. [1, 0] ! k) [''N''] [''L1'', ''L2'', ''L3''] 0))))
       = mset (allParticipants [''A''] [''N''] [''L1'', ''L2'', ''L3''])"
    by (rule partition_groups [OF n2, THEN conjunct2, THEN conjunct2, THEN conjunct1])
  from a have a': "makeNewbieParticipants (\<lambda>k. 0) [''N1'', ''N2''] [''L''] 0 =
     (Groups [\<lparr>name = ''N1'', type = newbie\<rparr>, \<lparr>name = ''N2'', type = newbie\<rparr>,
              \<lparr>name = ''L'', type = leader\<rparr>] [], 0) \<and>
   normalParticipants [''A''] [] = [\<lparr>name = ''A'', type = normal\<rparr>]"
    by (simp add: asType_def)
  from c have c': "mset [\<lparr>name = ''N'', type = newbie\<rparr>, \<lparr>name = ''L3'', type = leader\<rparr>] +
     mset (normalParticipants [''A''] [''L1'', ''L2''])
     = mset (allParticipants [''A''] [''N''] [''L1'', ''L2'', ''L3''])"
    by (simp only: e fst_conv newbieParticipantsData.sel)
  from a' e c' show ?thesis by (intro conjI) (simp_all only:)
qed

end
